theory Spec2Isabelle
  imports Main "HOL-Library.Word" "HOL-Library.Char_ord" "HOL-Library.List_Lexorder"
begin

unbundle bit_operations_syntax

section \<open>Values shared by the modules\<close>

text \<open>
  JavaScript strings are modelled as \<open>string\<close>, byte arrays (\<open>Uint8Array\<close>) as lists of
  8-bit words. An exception is a value of type \<open>error\<close>; a function that can throw returns
  \<open>error + 'a\<close> with \<open>Inl\<close> for the exception. \<open>MveloError message code\<close> is
  \<open>new mvelo.Error(message, code)\<close> or any error object of a collaborator that carries a
  \<open>code\<close> property.
\<close>

type_synonym byte = "8 word"

datatype error =
    WKD_failed_to_parse string
  | WKD_Timeout
  | WKD_invalid_data_type
  | WKD_failed_to_parse_result string string
  | WKD_no_matching_key
  | WKD_error_handling_keys error
  | WKD_invalid_response int string
  | WKD_response_too_long
  | WKD_skipping_lookup_without_email
  | WKD_skipping_blacklisted_domain
  | TypeError
  | MveloError string "string option"

fun code :: "error \<Rightarrow> string option" where
  "code (MveloError message c) = c"
| "code e = None"

text \<open>Truthiness of a string that may be \<open>undefined\<close>: the empty string is falsy too.\<close>

fun truthy :: "string option \<Rightarrow> bool" where
  "truthy None = False"
| "truthy (Some s) = (s \<noteq> [])"

datatype keyStatus = invalid | expired | revoked | valid | no_self_cert

text \<open>
  An OpenPGP key as the code reads it: \<open>key.primaryKey.getFingerprint()\<close>,
  \<open>key.primaryKey.getKeyId().toHex()\<close>, \<open>key.primaryKey.created\<close> (milliseconds) and
  \<open>key.users\<close>. A user is a user id packet (\<open>user.userId.userid\<close>) or a user attribute,
  whose \<open>userId\<close> is null.
\<close>

record pgp_user =
  userId :: "string option"

record pgp_key =
  fingerprint :: string
  keyIdHex :: string
  created :: int
  users :: "pgp_user list"

text \<open>What \<open>mapKeyUserIds\<close> writes into the user object it is given.\<close>

record mapped_user =
  mUserId :: string
  mEmail :: string
  mName :: string

record read_result =
  rkeys :: "pgp_key list"
  rerr :: "string option"

text \<open>
  The functions of libraries outside the repository that the code calls, taken as
  parameters: \<open>String.prototype.toLowerCase\<close> and \<open>toUpperCase\<close>, the SHA-1 digest of a string
  (\<open>crypto.createHash('sha1')\<close>, \<open>update\<close>, \<open>digest\<close>), \<open>openpgp.key.read\<close>,
  \<open>key.verifyPrimaryKey()\<close>, \<open>key.armor()\<close>, \<open>user.verify(primaryKey)\<close>, and of the
  repository's modules that are not part of the sources at hand: \<open>mapKeyUserIds\<close> and
  \<open>getUserId\<close> of \<open>modules/key\<close>, \<open>isKeyPseudoRevoked\<close> of \<open>modules/trustKey\<close>.
\<close>

record ext =
  toLowerCase :: "string \<Rightarrow> string"
  toUpperCase :: "string \<Rightarrow> string"
  sha1 :: "string \<Rightarrow> byte list"
  key_read :: "byte list \<Rightarrow> read_result"
  verifyPrimaryKey :: "pgp_key \<Rightarrow> keyStatus"
  armor :: "pgp_key \<Rightarrow> string"
  verifyUser :: "pgp_key \<Rightarrow> pgp_user \<Rightarrow> keyStatus"
  mapKeyUserIds :: "string \<Rightarrow> mapped_user"
  getUserId :: "pgp_key \<Rightarrow> string"
  isKeyPseudoRevoked :: "string \<Rightarrow> pgp_key \<Rightarrow> bool"

section \<open>WKDLocate: Web Key Directory lookup\<close>

subsection \<open>encodeZBase32\<close>

definition ALPHABET :: string where
  "ALPHABET = ''ybndrfg8ejkmcpqxot1uwisza345h769''"

definition SHIFT :: nat where
  "SHIFT = 5"

definition MASK :: "32 word" where
  "MASK = 31"

text \<open>
  The \<open>while\<close> loop of \<open>encodeZBase32\<close>. \<open>buffer\<close> is a 32-bit integer, as the operands of
  \<open><<\<close>, \<open>|\<close>, \<open>>>\<close> and \<open>&\<close> are in JavaScript: \<open><<\<close> drops the bits shifted out and
  \<open>>>\<close> is the sign-propagating shift. \<open>bitsLeft\<close> is at least \<open>SHIFT\<close> when \<open>SHIFT\<close> is
  subtracted from it, so the subtraction on \<open>nat\<close> is the one of the code.
\<close>

function encodeZBase32_loop :: "byte list \<Rightarrow> 32 word \<Rightarrow> nat \<Rightarrow> nat \<Rightarrow> string \<Rightarrow> string" where
  "encodeZBase32_loop data buffer index bitsLeft result =
    (if bitsLeft > 0 \<or> index < length data then
       (let (buffer1, index1, bitsLeft1) =
              (if bitsLeft < SHIFT then
                 (if index < length data
                  then (push_bit 8 buffer OR ucast (data ! index AND 0xff), index + 1, bitsLeft + 8)
                  else (let pad = SHIFT - bitsLeft in (push_bit pad buffer, index, bitsLeft + pad)))
               else (buffer, index, bitsLeft));
            bitsLeft2 = bitsLeft1 - SHIFT
        in encodeZBase32_loop data buffer1 index1 bitsLeft2
             (result @ [ALPHABET ! unat (MASK AND signed_drop_bit bitsLeft2 buffer1)]))
     else result)"
  by pat_completeness auto
termination
  by (relation "measure (\<lambda>(data, buffer, index, bitsLeft, result). 8 * (length data - index) + bitsLeft)")
     (auto simp: SHIFT_def split: if_splits)

declare encodeZBase32_loop.simps [simp del]

definition encodeZBase32 :: "byte list \<Rightarrow> string" where
  "encodeZBase32 data =
    (if length data = 0 then '''' else encodeZBase32_loop data (ucast (data ! 0)) 1 8 '''')"

text \<open>
  Z-base-32 as the specification words it: the bits of the input, most significant bit of
  each byte first, cut into groups of five, the last group filled with zero bits; each
  group read as a number, most significant bit first, and replaced by the character of the
  alphabet at that position. No padding character is added.
\<close>

definition bits_of_byte :: "byte \<Rightarrow> bool list" where
  "bits_of_byte b = map (bit b) [7, 6, 5, 4, 3, 2, 1, 0]"

fun groups5 :: "bool list \<Rightarrow> bool list list" where
  "groups5 [] = []"
| "groups5 (b # bs) = take 5 ((b # bs) @ replicate 4 False) # groups5 (drop 5 (b # bs))"

definition group_value :: "bool list \<Rightarrow> nat" where
  "group_value g = foldl (\<lambda>acc b. 2 * acc + of_bool b) 0 g"

definition zbase32_spec :: "byte list \<Rightarrow> string" where
  "zbase32_spec data =
     map (\<lambda>g. ALPHABET ! group_value g) (groups5 (concat (map bits_of_byte data)))"

subsection \<open>buildWKDUrl\<close>

text \<open>
  \<open>/(.*)@(.*)/.exec(email)\<close>: the dot matches every character but a line terminator, both
  stars are greedy and the match is the leftmost one. So the match lies in the first line
  of the string that holds an \<open>@\<close>, group 1 is that line up to its last \<open>@\<close> and group 2
  the rest of the line. \<open>None\<close> is the \<open>null\<close> of a failed match. Of the line terminators
  of JavaScript, line feed and carriage return are characters of \<open>string\<close>.
\<close>

definition isLineTerminator :: "char \<Rightarrow> bool" where
  "isLineTerminator c \<longleftrightarrow> c = CHR 0x0A \<or> c = CHR 0x0D"

fun lines_of :: "string \<Rightarrow> string list" where
  "lines_of [] = [[]]"
| "lines_of (c # cs) =
     (if isLineTerminator c then [] # lines_of cs
      else (case lines_of cs of [] \<Rightarrow> [[c]] | l # ls \<Rightarrow> (c # l) # ls))"

definition exec_local_domain :: "string \<Rightarrow> (string \<times> string) option" where
  "exec_local_domain s =
     (case find (\<lambda>l. CHR ''@'' \<in> set l) (lines_of s) of
        None \<Rightarrow> None
      | Some l \<Rightarrow>
          Some (rev (tl (dropWhile (\<lambda>c. c \<noteq> CHR ''@'') (rev l))),
                rev (takeWhile (\<lambda>c. c \<noteq> CHR ''@'') (rev l))))"

definition buildWKDUrl :: "'a ext_scheme \<Rightarrow> string \<Rightarrow> error + string" where
  "buildWKDUrl x email =
     (case exec_local_domain email of
        None \<Rightarrow> Inl TypeError
      | Some (localPart, domain) \<Rightarrow>
          if localPart = [] \<or> domain = [] then Inl (WKD_failed_to_parse email)
          else
            (let digest = sha1 x (toLowerCase x localPart);
                 localEncoded = encodeZBase32 digest
             in Inr (''https://'' @ domain @ ''/.well-known/openpgpkey/hu/'' @ localEncoded)))"

subsection \<open>timeout\<close>

text \<open>
  \<open>timeout(ms, promise)\<close> creates a promise, registers a timer of \<open>ms\<close> milliseconds whose
  callback rejects it with \<open>WKD: Timeout\<close>, and passes its \<open>resolve\<close> and \<open>reject\<close> to
  \<open>promise.then\<close>. The state holds what is observable of it: how the new promise has
  settled (if it has), the delay of the timer while the timer is outstanding, and whether
  the wrapped promise is still outstanding. The function body calls neither
  \<open>clearTimeout\<close> nor anything on the wrapped promise, so only the two events change the
  state: the timer fires, or the wrapped promise settles. Settling a promise that is
  already settled has no effect.
\<close>

record 'a timeout_promise =
  settled :: "(error + 'a) option"
  timerOutstanding :: "nat option"
  promiseOutstanding :: bool






subsection \<open>parseKeysForEMail\<close>

datatype armored_result = Armored string | ArmoredList "string list"

text \<open>
  The inner \<open>forEach\<close> over \<open>key.users\<close>, with \<open>keptUsers\<close> as accumulator. Reading
  \<open>user.userId.userid\<close> of a user without user id packet throws a \<open>TypeError\<close>.
\<close>

fun keepUsers :: "'a ext_scheme \<Rightarrow> string \<Rightarrow> pgp_user list \<Rightarrow> pgp_user list \<Rightarrow> error + pgp_user list" where
  "keepUsers x email [] keptUsers = Inr keptUsers"
| "keepUsers x email (user # rest) keptUsers =
     (case userId user of
        None \<Rightarrow> Inl TypeError
      | Some userid \<Rightarrow>
          (let userMapped = mapKeyUserIds x userid in
           if toLowerCase x (mEmail userMapped) = toLowerCase x email
           then keepUsers x email rest (keptUsers @ [user])
           else keepUsers x email rest keptUsers))"

record selection =
  keptArmoredKeys :: "string list"
  candidate :: "pgp_key option"

text \<open>
  The callback of the outer \<open>forEach\<close> over \<open>result.keys\<close>, on the variables
  \<open>keptArmoredKeys\<close> and \<open>candidate\<close> it closes over. \<open>key.users = keptUsers\<close> is the
  record update; \<open>verifyPrimaryKey\<close> is called after it, on the key with the users that
  were kept.
\<close>

definition inspectKey :: "'a ext_scheme \<Rightarrow> string \<Rightarrow> bool \<Rightarrow> pgp_key \<Rightarrow> selection \<Rightarrow> error + selection" where
  "inspectKey x email onlyOne key0 sel =
     (case keepUsers x email (users key0) [] of
        Inl e \<Rightarrow> Inl e
      | Inr keptUsers \<Rightarrow>
          if keptUsers \<noteq> [] then
            (let key = key0\<lparr>users := keptUsers\<rparr> in
             if onlyOne then
               (case candidate sel of
                  None \<Rightarrow> Inr (sel\<lparr>candidate := Some key\<rparr>)
                | Some cand \<Rightarrow>
                    (let newValid = (verifyPrimaryKey x key = valid);
                         oldValid = (verifyPrimaryKey x cand = valid)
                     in if newValid \<and> \<not> oldValid then Inr (sel\<lparr>candidate := Some key\<rparr>)
                        else if newValid = oldValid \<and> created key > created cand
                        then Inr (sel\<lparr>candidate := Some key\<rparr>)
                        else Inr sel))
             else Inr (sel\<lparr>keptArmoredKeys := keptArmoredKeys sel @ [armor x key]\<rparr>))
          else Inr sel)"

fun inspectKeys :: "'a ext_scheme \<Rightarrow> string \<Rightarrow> bool \<Rightarrow> pgp_key list \<Rightarrow> selection \<Rightarrow> error + selection" where
  "inspectKeys x email onlyOne [] sel = Inr sel"
| "inspectKeys x email onlyOne (key0 # rest) sel =
     (case inspectKey x email onlyOne key0 sel of
        Inl e \<Rightarrow> Inl e
      | Inr sel1 \<Rightarrow> inspectKeys x email onlyOne rest sel1)"

text \<open>
  \<open>data\<close> is a byte array by its type, so the \<open>isUint8Array\<close> check passes. Every exception
  of the \<open>try\<close> block is caught and thrown again inside \<open>WKD: Error handling keys\<close>.
\<close>

definition parseKeysForEMail :: "'a ext_scheme \<Rightarrow> byte list \<Rightarrow> string \<Rightarrow> bool \<Rightarrow> error + armored_result" where
  "parseKeysForEMail x data email onlyOne =
     (let result = key_read x data in
      case rerr result of
        Some e \<Rightarrow> Inl (WKD_failed_to_parse_result email e)
      | None \<Rightarrow>
          (case inspectKeys x email onlyOne (rkeys result) \<lparr>keptArmoredKeys = [], candidate = None\<rparr> of
             Inl e \<Rightarrow> Inl (WKD_error_handling_keys e)
           | Inr sel \<Rightarrow>
               (case (if onlyOne then candidate sel else None) of
                  Some cand \<Rightarrow> Inr (Armored (armor x cand))
                | None \<Rightarrow>
                    if keptArmoredKeys sel \<noteq> [] then Inr (ArmoredList (keptArmoredKeys sel))
                    else Inl (WKD_error_handling_keys WKD_no_matching_key))))"

text \<open>
  The filtering as the specification words it: of every key the user identities whose
  mapped email equals the queried one up to case, and of the keys those that keep at least
  one identity.
\<close>

definition matches :: "'a ext_scheme \<Rightarrow> string \<Rightarrow> pgp_user \<Rightarrow> bool" where
  "matches x email user =
     (case userId user of
        None \<Rightarrow> False
      | Some userid \<Rightarrow> toLowerCase x (mEmail (mapKeyUserIds x userid)) = toLowerCase x email)"

definition surviving :: "'a ext_scheme \<Rightarrow> string \<Rightarrow> pgp_key list \<Rightarrow> pgp_key list" where
  "surviving x email ks =
     filter (\<lambda>k. users k \<noteq> []) (map (\<lambda>k. k\<lparr>users := filter (matches x email) (users k)\<rparr>) ks)"

definition isValid :: "'a ext_scheme \<Rightarrow> pgp_key \<Rightarrow> bool" where
  "isValid x k \<longleftrightarrow> verifyPrimaryKey x k = valid"

subsection \<open>sizeLimitResponse\<close>

record response =
  status :: int
  statusText :: string
  body :: "byte list list"

text \<open>
  The body of a response is the list of chunks its reader yields before it is done. \<open>pump\<close>
  takes the reader (the chunks not yet read) and the variables \<open>total\<close> (here \<open>totalRead\<close>)
  and \<open>results\<close> it closes over, and returns the outcome together with the reader as it
  leaves it.
\<close>

fun pump :: "byte list list \<Rightarrow> nat \<Rightarrow> byte list list \<Rightarrow> nat \<Rightarrow> (error + byte list) \<times> byte list list" where
  "pump [] totalRead results limit = (Inr (concat results), [])"
| "pump (chunk # reader) totalRead results limit =
     (let totalRead1 = totalRead + length chunk;
          results1 = results @ [chunk]
      in if totalRead1 > limit then (Inl WKD_response_too_long, reader)
         else pump reader totalRead1 results1 limit)"

definition sizeLimitResponse :: "response \<Rightarrow> nat \<Rightarrow> (error + byte list) \<times> byte list list" where
  "sizeLimitResponse res limit =
     (if status res \<noteq> 200 then (Inl (WKD_invalid_response (status res) (statusText res)), body res)
      else pump (body res) 0 [] limit)"

subsection \<open>WKDLocate\<close>

record WKDLocate =
  blacklist :: "string list"
  TIMEOUT :: nat
  SIZE_LIMIT :: nat

definition WKDLocate_constructor :: "string list option \<Rightarrow> WKDLocate" where
  "WKDLocate_constructor wkd_blacklist =
     \<lparr>blacklist = (case wkd_blacklist of None \<Rightarrow> [] | Some l \<Rightarrow> l), TIMEOUT = 5, SIZE_LIMIT = 64\<rparr>"


text \<open>
  The state of the expression
  \<open>timeout(this.TIMEOUT * 1000, window.fetch(url)).then(res => sizeLimitResponse(res, ...))\<close>:
  the promise \<open>timeout\<close> returned, the reader with the variables \<open>total\<close> and \<open>results\<close>
  of \<open>sizeLimitResponse\<close> while \<open>pump\<close> waits for a read, and how the promise that \<open>then\<close>
  returned, the one \<open>lookup\<close> awaits, has settled (if it has).
\<close>

record lookup_state =
  fetchPromise :: "response timeout_promise"
  pumpState :: "(byte list list \<times> nat \<times> byte list list) option"
  dataPromise :: "(error + byte list) option"






section \<open>AutoLocate\<close>

text \<open>
  The preferences the code reads: \<open>prefs.general.auto_add_primary\<close>,
  \<open>prefs.security.password_cache\<close>, \<open>prefs.keyserver.wkd_lookup\<close> and
  \<open>prefs.keyserver.mvelo_tofu_lookup\<close>.
\<close>

record prefs =
  auto_add_primary :: bool
  password_cache :: bool
  wkd_lookup :: bool
  mvelo_tofu_lookup :: bool












section \<open>KeyringBase.getKeyData\<close>

record key_data =
  kdKey :: pgp_key
  kdKeyId :: string
  kdFingerprint :: string
  kdUsers :: "mapped_user list"

text \<open>
  The inner loop of the \<open>allUsers\<close> branch, with \<open>keyData.users\<close> as accumulator. Each
  \<open>continue\<close> goes on with the rest of \<open>key.users\<close>.
\<close>

fun collectUsers :: "'a ext_scheme \<Rightarrow> pgp_key \<Rightarrow> pgp_user list \<Rightarrow> mapped_user list \<Rightarrow> mapped_user list" where
  "collectUsers x key [] kdusers = kdusers"
| "collectUsers x key (keyUser # rest) kdusers =
     (case userId keyUser of
        None \<Rightarrow> collectUsers x key rest kdusers
      | Some userid \<Rightarrow>
          if verifyUser x key keyUser = valid then
            (if \<exists>existingUser \<in> set kdusers. mUserId existingUser = userid
             then collectUsers x key rest kdusers
             else
               (let user = mapKeyUserIds x userid in
                if mEmail user = [] then collectUsers x key rest kdusers
                else collectUsers x key rest (kdusers @ [user])))
          else collectUsers x key rest kdusers)"

definition keyDataOf :: "'a ext_scheme \<Rightarrow> pgp_key \<Rightarrow> bool \<Rightarrow> key_data" where
  "keyDataOf x key allUsers =
     \<lparr>kdKey = key,
      kdKeyId = toUpperCase x (keyIdHex key),
      kdFingerprint = fingerprint key,
      kdUsers = (if allUsers then collectUsers x key (users key) []
                 else [mapKeyUserIds x (getUserId x key)])\<rparr>"

text \<open>
  The loop over \<open>this.keystore.getAllKeys()\<close>, with \<open>result\<close> as accumulator; \<open>this.id\<close> is
  the id of the keyring.
\<close>

fun getKeyData_loop :: "'a ext_scheme \<Rightarrow> string \<Rightarrow> bool \<Rightarrow> pgp_key list \<Rightarrow> key_data list \<Rightarrow> key_data list" where
  "getKeyData_loop x this_id allUsers [] result = result"
| "getKeyData_loop x this_id allUsers (key # rest) result =
     (if verifyPrimaryKey x key = invalid \<or> isKeyPseudoRevoked x this_id key
      then getKeyData_loop x this_id allUsers rest result
      else getKeyData_loop x this_id allUsers rest (result @ [keyDataOf x key allUsers]))"

definition getKeyData :: "'a ext_scheme \<Rightarrow> string \<Rightarrow> pgp_key list \<Rightarrow> bool \<Rightarrow> key_data list" where
  "getKeyData x this_id allKeys allUsers = getKeyData_loop x this_id allUsers allKeys []"

section \<open>EditorController\<close>

datatype popup = Popup

text \<open>
  \<open>this_port\<close> is the port \<open>this.emit\<close> writes to, \<open>editor_port\<close> is \<open>this.ports.editor\<close>
  and \<open>editorCont_port\<close> is \<open>this.ports.editorCont\<close>.
\<close>

datatype port = this_port | editor_port | editorCont_port

datatype event =
    show_pwd_dialog string
  | hide_pwd_dialog
  | error_message error
  | get_plaintext string bool
  | encrypt_end
  | encrypt_failed
  | encrypt_in_progress
  | encrypted_message "string option"

datatype timer = Timer port event nat

record recipient_key =
  rName :: string
  rEmail :: string
  rFingerprint :: string

text \<open>The message of the \<open>editor-plaintext\<close> event.\<close>

record plaintext_options =
  action :: string
  message :: string
  keys :: "recipient_key list option"
  attachments :: "string list"
  signMsg :: bool
  signKeyFpr :: "string option"
  noCache :: "bool option"

record unlock_request =
  reqKey :: "pgp_key option"
  reqReason :: string
  reqOpenPopup :: bool
  reqNoCache :: "bool option"

record unlocked =
  unlockedKey :: pgp_key
  unlockedPassword :: string

text \<open>
  What the password dialog does with a request: whether it calls \<open>beforePasswordRequest\<close>
  (with its id), and how the promise of its \<open>unlockKey\<close> settles.
\<close>

record unlock_behaviour =
  passwordRequest :: "string option"
  outcome :: "error + unlocked"

record unlock_options =
  uoKey :: "pgp_key option"
  uoNoCache :: "bool option"
  uoReason :: "string option"
  uoSync :: "bool option"

datatype effect =
    Emit port event
  | UnlockKeyCall unlock_request
  | TriggerSync
  | SetTimeout timer
  | ClearTimeout "timer option"
  | EngineEncrypt string "string list" "pgp_key option"
  | EngineSign string "pgp_key option"
  | PopupClose
  | EncryptDoneResolve "string option" "(string \<times> string) list"
  | EncryptDoneReject error
  | ConsoleLog error
  | SyncPublicKeys "string option" "string list"

text \<open>
  The collaborators of the controller: the constant \<open>mvelo.MAIN_KEYRING_ID\<close>, the
  preferences, \<open>getKeyringById(id).getPrimaryKeyFpr()\<close> and \<open>getPrivateKeyByFpr\<close>,
  \<open>mapAddressKeyMapToFpr(getKeyByAddress(id, recipients))\<close> (\<open>None\<close> is the \<open>false\<close> of an
  address without key), \<open>mvelo.util.mapError\<close>, \<open>buildMail\<close> (called with the options and
  their \<open>pgpMIME\<close> flag; it may return \<open>null\<close>), the password dialog that
  \<open>sub.factory.get('pwdDialog')\<close> returns, and the results of the crypto engine.
\<close>

record editor_env =
  mvelo_MAIN_KEYRING_ID :: string
  env_prefs :: prefs
  getPrimaryKeyFpr :: "string option \<Rightarrow> string option"
  getPrivateKeyByFpr :: "string option \<Rightarrow> string option \<Rightarrow> pgp_key option"
  keyFprMap :: "string option \<Rightarrow> string list \<Rightarrow> string \<Rightarrow> string list option"
  mapError :: "error \<Rightarrow> error"
  buildMail :: "plaintext_options \<Rightarrow> bool \<Rightarrow> error + string option"
  pwdDialog_id :: string
  pwdDialog_unlockKey :: "unlock_request \<Rightarrow> unlock_behaviour"
  engine_encrypt :: "string \<Rightarrow> string list \<Rightarrow> pgp_key option \<Rightarrow> error + string"
  engine_sign :: "string \<Rightarrow> pgp_key option \<Rightarrow> error + string"

record editor_options =
  reason :: "string option"

text \<open>
  The fields of the controller the handlers below read or write. \<open>encryptDone\<close> tells
  whether the pair of \<open>resolve\<close> and \<open>reject\<close> is set, \<open>ports_editorCont\<close> whether
  \<open>this.ports.editorCont\<close> is; \<open>keyFprBuffer\<close> is \<open>None\<close> until a handler assigns it.
\<close>

record EditorController =
  encryptDone :: bool
  encryptTimer :: "timer option"
  keyringId :: "string option"
  editorPopup :: "popup option"
  signKey :: "pgp_key option"
  pwdControl :: "string option"
  pgpMIME :: bool
  options :: editor_options
  keyFprBuffer :: "string list option"
  ports_editorCont :: bool

text \<open>
  Modelled from the spec: \<open>mvelo.util.sortAndDeDup\<close> of \<open>lib-mvelo\<close> is not among the
  sources. The specification says of the fingerprints that "the final set is deduplicated
  and sorted for determinism before use": the list is sorted and of equal neighbours one
  is kept.
\<close>

definition sortAndDeDup :: "string list \<Rightarrow> string list" where
  "sortAndDeDup unordered = remdups_adj (sort unordered)"

definition getPublicKeyFprs :: "editor_env \<Rightarrow> EditorController \<Rightarrow> recipient_key list \<Rightarrow> string list" where
  "getPublicKeyFprs env this ks =
     (let keyFprs =
            (case keyFprBuffer this of
               Some buffer \<Rightarrow> buffer
             | None \<Rightarrow>
                 (let keyFprs0 = map rFingerprint ks in
                  if auto_add_primary (env_prefs env) then
                    (let primaryKeyFpr = getPrimaryKeyFpr env (Some (mvelo_MAIN_KEYRING_ID env)) in
                     case primaryKeyFpr of
                       None \<Rightarrow> keyFprs0
                     | Some fpr \<Rightarrow> if fpr \<noteq> [] then keyFprs0 @ [fpr] else keyFprs0)
                  else keyFprs0))
      in sortAndDeDup keyFprs)"

record container_encrypt_msg =
  ceKeyringId :: string
  ceRecipients :: "string list"

definition onEditorContainerEncrypt :: "editor_env \<Rightarrow> EditorController \<Rightarrow> container_encrypt_msg \<Rightarrow> EditorController \<times> effect list" where
  "onEditorContainerEncrypt env this msg =
     (let this1 = this\<lparr>pgpMIME := True, keyringId := Some (ceKeyringId msg)\<rparr>;
          fprMap = keyFprMap env (keyringId this1) (ceRecipients msg)
      in if \<exists>recipient \<in> set (ceRecipients msg). fprMap recipient = None then
           (this1, [Emit editorCont_port (error_message
              (MveloError ''No valid encryption key for recipient address'' (Some ''NO_KEY_FOR_RECIPIENT'')))])
         else
           (let keyFprs0 = concat (map (\<lambda>recipient. case fprMap recipient of None \<Rightarrow> [] | Some l \<Rightarrow> l)
                                     (ceRecipients msg));
                keyFprs =
                  (if auto_add_primary (env_prefs env) then
                     (case getPrimaryKeyFpr env (keyringId this1) of
                        None \<Rightarrow> keyFprs0
                      | Some fpr \<Rightarrow> if fpr \<noteq> [] then keyFprs0 @ [fpr] else keyFprs0)
                   else keyFprs0);
                this2 = this1\<lparr>keyFprBuffer := Some (sortAndDeDup keyFprs)\<rparr>
            in (this2, [SyncPublicKeys (keyringId this2) (sortAndDeDup keyFprs),
                        Emit editor_port (get_plaintext ''encrypt'' False)])))"

definition onEditorContainerCreateDraft :: "editor_env \<Rightarrow> EditorController \<Rightarrow> string \<Rightarrow> EditorController \<times> effect list" where
  "onEditorContainerCreateDraft env this msg_keyringId =
     (let this1 = this\<lparr>pgpMIME := True, keyringId := Some msg_keyringId,
                       options := (options this)\<lparr>reason := Some ''PWD_DIALOG_REASON_CREATE_DRAFT''\<rparr>\<rparr>
      in if truthy (getPrimaryKeyFpr env (keyringId this1)) then
           (case getPrimaryKeyFpr env (keyringId this1) of
              None \<Rightarrow> (this1, [])
            | Some primaryKeyFpr \<Rightarrow>
                (this1\<lparr>keyFprBuffer := Some [primaryKeyFpr]\<rparr>,
                 [Emit editor_port (get_plaintext ''encrypt'' True)]))
         else
           (this1, [Emit editorCont_port (error_message
              (MveloError ''No private key found for creating draft.'' (Some ''NO_KEY_FOR_ENCRYPTION'')))]))"

definition onSignOnly :: "editor_env \<Rightarrow> EditorController \<Rightarrow> string option \<Rightarrow> EditorController \<times> effect list" where
  "onSignOnly env this msg_signKeyFpr =
     (let this1 = this\<lparr>signKey := getPrivateKeyByFpr env (Some (mvelo_MAIN_KEYRING_ID env)) msg_signKeyFpr,
                       pwdControl := Some (pwdDialog_id env)\<rparr>;
          request = \<lparr>reqKey = signKey this1, reqReason = ''PWD_DIALOG_REASON_SIGN'',
                     reqOpenPopup = False, reqNoCache = None\<rparr>;
          behaviour = pwdDialog_unlockKey env request;
          fx = UnlockKeyCall request #
               (case passwordRequest behaviour of
                  None \<Rightarrow> []
                | Some i \<Rightarrow> [Emit this_port (show_pwd_dialog (pwdDialog_id env))])
      in case outcome behaviour of
           Inl err \<Rightarrow>
             if code err = Some ''PWD_DIALOG_CANCEL''
             then (this1, fx @ [Emit this_port hide_pwd_dialog])
             else (this1, fx @ [Emit this_port (error_message (mapError env err)),
                                Emit this_port (get_plaintext ''sign'' False)])
         | Inr u \<Rightarrow> (this1, fx @ [Emit this_port (get_plaintext ''sign'' False)]))"

definition unlockKey :: "editor_env \<Rightarrow> EditorController \<Rightarrow> unlock_options \<Rightarrow> effect list \<times> (error + pgp_key)" where
  "unlockKey env this uo =
     (let rsn = (case uoReason uo of None \<Rightarrow> ''PWD_DIALOG_REASON_DECRYPT'' | Some r \<Rightarrow> r);
          sync = (case uoSync uo of None \<Rightarrow> True | Some b \<Rightarrow> b);
          openPopup = (editorPopup this = None);
          request = \<lparr>reqKey = uoKey uo, reqReason = rsn, reqOpenPopup = openPopup,
                     reqNoCache = uoNoCache uo\<rparr>;
          behaviour = pwdDialog_unlockKey env request;
          fx = UnlockKeyCall request #
               (case passwordRequest behaviour of
                  None \<Rightarrow> []
                | Some i \<Rightarrow> if editorPopup this \<noteq> None then [Emit editor_port (show_pwd_dialog i)] else [])
      in case outcome behaviour of
           Inl e \<Rightarrow> (fx, Inl e)
         | Inr unlockedKey1 \<Rightarrow> (fx @ (if sync then [TriggerSync] else []), Inr (unlockedKey unlockedKey1)))"

text \<open>
  The \<open>unlockKey\<close> closure that \<open>signAndEncryptMessage\<close> hands to \<open>model.encryptMessage\<close>:
  it completes the options, awaits \<open>this.unlockKey\<close> and then starts the timer of the
  progress signal. A rejected unlock leaves the closure before the timer is set.
\<close>

definition sign_unlockKey :: "editor_env \<Rightarrow> bool option \<Rightarrow> EditorController \<Rightarrow> unlock_options \<Rightarrow> EditorController \<times> effect list \<times> (error + pgp_key)" where
  "sign_unlockKey env noCache1 this uo =
     (let uo1 = uo\<lparr>uoNoCache := noCache1,
                    uoReason := Some (if truthy (reason (options this))
                                      then (case reason (options this) of None \<Rightarrow> [] | Some r \<Rightarrow> r)
                                      else ''PWD_DIALOG_REASON_SIGN''),
                    uoSync := Some (\<not> password_cache (env_prefs env))\<rparr>
      in case unlockKey env this uo1 of
           (fx, Inl e) \<Rightarrow> (this, fx, Inl e)
         | (fx, Inr result) \<Rightarrow>
             (let t = Timer editor_port encrypt_in_progress 800
              in (this\<lparr>encryptTimer := Some t\<rparr>, fx @ [SetTimeout t], Inr result)))"

text \<open>
  Modelled from the spec: \<open>encryptMessage\<close> of \<open>modules/pgpModel\<close> is not among the sources.
  The specification: when signing is requested the unlock collaborator is invoked for the
  signing key; a cancelled or failed unlock "aborts the whole job" and "cancelling before
  dispatch must not invoke the crypto engine"; then the crypto engine is invoked "with the
  message body, recipient fingerprint set, and optionally the unlocked signing key", and
  its failures propagate. Without a signing fingerprint the engine is invoked at once.
\<close>

definition model_encryptMessage :: "editor_env \<Rightarrow> EditorController \<Rightarrow> (EditorController \<Rightarrow> unlock_options \<Rightarrow> EditorController \<times> effect list \<times> (error + pgp_key)) \<Rightarrow> string \<Rightarrow> string list \<Rightarrow> string option \<Rightarrow> EditorController \<times> effect list \<times> (error + string)" where
  "model_encryptMessage env this unlock data encryptionKeyFprs signingKeyFpr =
     (case signingKeyFpr of
        None \<Rightarrow> (this, [EngineEncrypt data encryptionKeyFprs None],
                  engine_encrypt env data encryptionKeyFprs None)
      | Some fpr \<Rightarrow>
          (case unlock this \<lparr>uoKey = getPrivateKeyByFpr env (keyringId this) (Some fpr),
                             uoNoCache = None, uoReason = None, uoSync = None\<rparr> of
             (this1, fx, Inl e) \<Rightarrow> (this1, fx, Inl e)
           | (this1, fx, Inr k) \<Rightarrow>
               (this1, fx @ [EngineEncrypt data encryptionKeyFprs (Some k)],
                engine_encrypt env data encryptionKeyFprs (Some k))))"

text \<open>
  Modelled from the spec: \<open>signMessage\<close> of \<open>modules/pgpModel\<close> is not among the sources.
  The specification lists the crypto engine's \<open>sign(message, key)\<close>, which returns the
  armored signature.
\<close>

definition model_signMessage :: "editor_env \<Rightarrow> string \<Rightarrow> pgp_key option \<Rightarrow> effect list \<times> (error + string)" where
  "model_signMessage env msg k = ([EngineSign msg k], engine_sign env msg k)"

definition signAndEncryptMessage :: "editor_env \<Rightarrow> EditorController \<Rightarrow> string \<Rightarrow> string option \<Rightarrow> string list \<Rightarrow> bool option \<Rightarrow> EditorController \<times> effect list \<times> (error + string)" where
  "signAndEncryptMessage env this data signKeyFpr0 keyFprs noCache1 =
     (let this1 = this\<lparr>encryptTimer := None\<rparr>;
          signKeyFpr1 = (if \<not> truthy signKeyFpr0 then getPrimaryKeyFpr env (keyringId this1)
                         else signKeyFpr0)
      in if \<not> truthy signKeyFpr1
         then (this1, [], Inl (MveloError ''No primary key found'' (Some ''NO_PRIMARY_KEY_FOUND'')))
         else model_encryptMessage env this1 (sign_unlockKey env noCache1) data keyFprs signKeyFpr1)"

definition encryptMessage :: "editor_env \<Rightarrow> EditorController \<Rightarrow> string \<Rightarrow> string list \<Rightarrow> EditorController \<times> effect list \<times> (error + string)" where
  "encryptMessage env this data keyFprs =
     (let t = Timer editor_port encrypt_in_progress 800;
          this1 = this\<lparr>encryptTimer := Some t\<rparr>
      in case model_encryptMessage env this1 (sign_unlockKey env None) data keyFprs None of
           (this2, fx, r) \<Rightarrow> (this2, SetTimeout t # fx, r))"

definition signMessage :: "editor_env \<Rightarrow> EditorController \<Rightarrow> string \<Rightarrow> EditorController \<times> effect list \<times> (error + string)" where
  "signMessage env this msg =
     (let t = Timer this_port encrypt_in_progress 800;
          this1 = this\<lparr>encryptTimer := Some t\<rparr>
      in case model_signMessage env msg (signKey this1) of
           (fx, r) \<Rightarrow> (this1, SetTimeout t # fx, r))"

text \<open>
  \<open>signAndEncrypt\<close> returns \<open>undefined\<close> (here \<open>Inr None\<close>) for an action that is neither
  \<open>encrypt\<close> nor \<open>sign\<close>.
\<close>

definition signAndEncrypt :: "editor_env \<Rightarrow> EditorController \<Rightarrow> plaintext_options \<Rightarrow> EditorController \<times> effect list \<times> (error + string option)" where
  "signAndEncrypt env this opts =
     (if action opts = ''encrypt'' then
        (let (fx0, data) =
               (case buildMail env opts (pgpMIME this) of
                  Inl e \<Rightarrow> (if ports_editorCont this
                             then [Emit editorCont_port (error_message (mapError env e))] else [],
                            None)
                | Inr d \<Rightarrow> ([], d))
         in case data of
              None \<Rightarrow> (this, fx0, Inl (MveloError ''MIME building failed.'' None))
            | Some d \<Rightarrow>
                (let keyFprs = getPublicKeyFprs env this (case keys opts of None \<Rightarrow> [] | Some ks \<Rightarrow> ks)
                 in case (if signMsg opts
                          then signAndEncryptMessage env this d (signKeyFpr opts) keyFprs (noCache opts)
                          else encryptMessage env this d keyFprs) of
                      (this1, fx, r) \<Rightarrow> (this1, fx0 @ fx, map_sum id Some r)))
      else if action opts = ''sign'' then
        (case signMessage env this (message opts) of
           (this1, fx, r) \<Rightarrow> (this1, fx, map_sum id Some r))
      else (this, [], Inr None))"

text \<open>
  \<open>transferEncrypted\<close>: calling \<open>resolve\<close> on the \<open>null\<close> of an unset \<open>encryptDone\<close> throws
  a \<open>TypeError\<close>.
\<close>

definition transferEncrypted :: "EditorController \<Rightarrow> string option \<Rightarrow> recipient_key list \<Rightarrow> effect list \<times> (error + unit)" where
  "transferEncrypted this armored ks =
     (if ports_editorCont this then ([Emit editorCont_port (encrypted_message armored)], Inr ())
      else
        (let recipients = map (\<lambda>k. (rName k, rEmail k)) ks in
         if encryptDone this then ([EncryptDoneResolve armored recipients], Inr ())
         else ([], Inl TypeError)))"

text \<open>
  The \<open>catch\<close> block of \<open>onEditorPlaintext\<close>, which also receives what the statements
  after \<open>signAndEncrypt\<close> throw, and the \<open>clearTimeout\<close> that follows it.
\<close>

definition onEditorPlaintext_catch :: "editor_env \<Rightarrow> EditorController \<Rightarrow> error \<Rightarrow> EditorController \<times> effect list \<times> (error + unit)" where
  "onEditorPlaintext_catch env this err =
     (if editorPopup this \<noteq> None \<and> code err = Some ''PWD_DIALOG_CANCEL''
      then (this, [Emit this_port hide_pwd_dialog], Inr ())
      else
        (let error1 = mapError env err;
             fx = [ConsoleLog err, Emit editor_port (error_message error1)]
         in if ports_editorCont this
            then (this, fx @ [Emit editorCont_port (error_message error1),
                              Emit editor_port encrypt_failed,
                              ClearTimeout (encryptTimer this)], Inr ())
            else if encryptDone this
            then (this, fx @ [EncryptDoneReject error1,
                              Emit editor_port encrypt_failed,
                              ClearTimeout (encryptTimer this)], Inr ())
            else (this, fx, Inl TypeError)))"

definition onEditorPlaintext :: "editor_env \<Rightarrow> EditorController \<Rightarrow> plaintext_options \<Rightarrow> EditorController \<times> effect list \<times> (error + unit)" where
  "onEditorPlaintext env this opts0 =
     (let ks = (case keys opts0 of None \<Rightarrow> [] | Some l \<Rightarrow> l);
          opts = opts0\<lparr>keys := Some ks\<rparr>
      in case signAndEncrypt env this opts of
           (this1, fx, Inl err) \<Rightarrow>
             (case onEditorPlaintext_catch env this1 err of
                (this2, fx2, r) \<Rightarrow> (this2, fx @ fx2, r))
         | (this1, fx, Inr armored) \<Rightarrow>
             (let fx1 = fx @ [Emit editor_port encrypt_end] @
                        (if editorPopup this1 \<noteq> None then [PopupClose] else []);
                  this2 = this1\<lparr>editorPopup := None\<rparr>
              in case transferEncrypted this2 armored ks of
                   (fx2, Inr u) \<Rightarrow>
                     (this2, fx1 @ fx2 @ [ClearTimeout (encryptTimer this2)], Inr ())
                 | (fx2, Inl err) \<Rightarrow>
                     (case onEditorPlaintext_catch env this2 err of
                        (this3, fx3, r) \<Rightarrow> (this3, fx1 @ fx2 @ fx3, r))))"

section \<open>Collaborators for running the model\<close>

text \<open>
  An instance of the external functions, to evaluate the definitions on concrete inputs:
  lower and upper case on ASCII letters, the SHA-1 digest of the string \<open>joe.doe\<close>
  (\<open>a83ee94be89c48a11ed25ab44cfdc848833c8b6e\<close>), a parser that reads every byte as one
  key, and validity, armor and pseudo-revocation read off the fingerprint. The keys \<open>EE05\<close>
  and \<open>FF06\<close> carry a user attribute, a user without user id packet.
\<close>

definition asciiLower :: "char \<Rightarrow> char" where
  "asciiLower c =
     (let n = (of_char c :: nat) in if 65 \<le> n \<and> n \<le> 90 then char_of (n + 32) else c)"

definition asciiUpper :: "char \<Rightarrow> char" where
  "asciiUpper c =
     (let n = (of_char c :: nat) in if 97 \<le> n \<and> n \<le> 122 then char_of (n - 32) else c)"

definition sample_key :: "byte \<Rightarrow> pgp_key" where
  "sample_key b =
     (if b = 1 then
        \<lparr>fingerprint = ''AA01'', keyIdHex = ''aa01'', created = 1000,
         users = [\<lparr>userId = Some ''Alice@Example.org''\<rparr>, \<lparr>userId = Some ''mallory@evil.test''\<rparr>]\<rparr>
      else if b = 2 then
        \<lparr>fingerprint = ''BB02'', keyIdHex = ''bb02'', created = 2000,
         users = [\<lparr>userId = Some ''alice@example.org''\<rparr>]\<rparr>
      else if b = 3 then
        \<lparr>fingerprint = ''CC03'', keyIdHex = ''cc03'', created = 3000,
         users = [\<lparr>userId = Some ''bob@example.org''\<rparr>]\<rparr>
      else if b = 4 then
        \<lparr>fingerprint = ''DD04'', keyIdHex = ''dd04'', created = 2500,
         users = [\<lparr>userId = Some ''alice@example.org''\<rparr>]\<rparr>
      else if b = 6 then
        \<lparr>fingerprint = ''FF06'', keyIdHex = ''ff06'', created = 5000,
         users = [\<lparr>userId = Some ''alice@example.org''\<rparr>, \<lparr>userId = None\<rparr>]\<rparr>
      else
        \<lparr>fingerprint = ''EE05'', keyIdHex = ''ee05'', created = 4000,
         users = [\<lparr>userId = Some []\<rparr>, \<lparr>userId = None\<rparr>]\<rparr>)"

definition sample_ext :: ext where
  "sample_ext =
     \<lparr>toLowerCase = map asciiLower,
      toUpperCase = map asciiUpper,
      sha1 = (\<lambda>s. if s = ''joe.doe''
                   then [0xa8, 0x3e, 0xe9, 0x4b, 0xe8, 0x9c, 0x48, 0xa1, 0x1e, 0xd2,
                         0x5a, 0xb4, 0x4c, 0xfd, 0xc8, 0x48, 0x83, 0x3c, 0x8b, 0x6e]
                   else []),
      key_read = (\<lambda>d. \<lparr>rkeys = map sample_key d, rerr = None\<rparr>),
      verifyPrimaryKey = (\<lambda>k. if fingerprint k = ''AA01'' then valid
                               else if fingerprint k = ''DD04'' then valid
                               else if fingerprint k = ''EE05'' then valid
                               else if fingerprint k = ''FF06'' then valid
                               else invalid),
      armor = fingerprint,
      verifyUser = (\<lambda>k u. valid),
      mapKeyUserIds = (\<lambda>u. \<lparr>mUserId = u, mEmail = u, mName = []\<rparr>),
      getUserId = (\<lambda>k. case users k of [] \<Rightarrow> [] | u # us \<Rightarrow> (case userId u of None \<Rightarrow> [] | Some i \<Rightarrow> i)),
      isKeyPseudoRevoked = (\<lambda>i k. fingerprint k = ''CC03'')\<rparr>"


definition sample_prefs :: prefs where
  "sample_prefs =
     \<lparr>auto_add_primary = True, password_cache = True, wkd_lookup = True, mvelo_tofu_lookup = True\<rparr>"



text \<open>
  Collaborators of the editor controller: every keyring has the primary key \<open>F0\<close>, every
  address but one has the keys \<open>C3\<close> and \<open>A1\<close>, the mail builder returns the message, the
  crypto engine succeeds, and the password dialog asks for the password and then settles
  as the argument says. The controller is given with or without editor popup and editor
  container.
\<close>

definition sample_editor_env :: "error + unlocked \<Rightarrow> editor_env" where
  "sample_editor_env unlock_outcome =
     \<lparr>mvelo_MAIN_KEYRING_ID = ''main'',
      env_prefs = sample_prefs,
      getPrimaryKeyFpr = (\<lambda>k. Some ''F0''),
      getPrivateKeyByFpr = (\<lambda>k f. Some (sample_key 1)),
      keyFprMap = (\<lambda>k rs r. if r = ''nokey@example.org'' then None else Some [''C3'', ''A1'']),
      mapError = (\<lambda>e. e),
      buildMail = (\<lambda>opts mime. Inr (Some (message opts))),
      pwdDialog_id = ''pwd1'',
      pwdDialog_unlockKey = (\<lambda>req. \<lparr>passwordRequest = Some ''pwd1'', outcome = unlock_outcome\<rparr>),
      engine_encrypt = (\<lambda>d fprs k. Inr ''ARMORED''),
      engine_sign = (\<lambda>m k. Inr ''SIGNED'')\<rparr>"

definition sample_controller :: "popup option \<Rightarrow> bool \<Rightarrow> EditorController" where
  "sample_controller pop cont =
     \<lparr>encryptDone = True, encryptTimer = None, keyringId = Some ''main'', editorPopup = pop,
      signKey = None, pwdControl = None, pgpMIME = False, options = \<lparr>reason = None\<rparr>,
      keyFprBuffer = None, ports_editorCont = cont\<rparr>"

definition cancelled :: "error + unlocked" where
  "cancelled = Inl (MveloError ''Password dialog canceled'' (Some ''PWD_DIALOG_CANCEL''))"

definition wrong_password :: "error + unlocked" where
  "wrong_password = Inl (MveloError ''Wrong password'' (Some ''WRONG_PASSWORD''))"

definition sample_plaintext :: "string \<Rightarrow> bool \<Rightarrow> plaintext_options" where
  "sample_plaintext act sign =
     \<lparr>action = act, message = ''hello'',
      keys = Some [\<lparr>rName = ''Bob'', rEmail = ''bob@example.org'', rFingerprint = ''B2''\<rparr>],
      attachments = [], signMsg = sign, signKeyFpr = None, noCache = None\<rparr>"

section \<open>Predicates used in the proofs\<close>

text \<open>
  The invariant of the loop of \<open>encodeZBase32\<close>: the lowest \<open>bl\<close> bits of \<open>buffer\<close> are the
  bits read and not yet written, the oldest in the highest position.
\<close>

definition pending :: "32 word \<Rightarrow> nat \<Rightarrow> bool list \<Rightarrow> bool" where
  "pending buffer bl pend \<longleftrightarrow> length pend = bl \<and> (\<forall>i<bl. bit buffer i = pend ! (bl - 1 - i))"

text \<open>
  The choice \<open>parseKeysForEMail\<close> makes between the candidate it holds and the next key
  that kept a user identity, and the order that choice respects: \<open>noWorse x c k\<close> says
  that \<open>k\<close> is not preferred over \<open>c\<close>.
\<close>

definition pick :: "'a ext_scheme \<Rightarrow> pgp_key option \<Rightarrow> pgp_key \<Rightarrow> pgp_key" where
  "pick x cand key =
     (case cand of
        None \<Rightarrow> key
      | Some c \<Rightarrow>
          if isValid x key \<and> \<not> isValid x c then key
          else if isValid x key = isValid x c \<and> created key > created c then key
          else c)"

definition noWorse :: "'a ext_scheme \<Rightarrow> pgp_key \<Rightarrow> pgp_key \<Rightarrow> bool" where
  "noWorse x c k \<longleftrightarrow>
     (isValid x k \<longrightarrow> isValid x c) \<and> (isValid x k = isValid x c \<longrightarrow> created k \<le> created c)"

text \<open>
  What \<open>getPublicKeyFprs\<close> appends to the fingerprints of the recipient keys when no
  buffer is set.
\<close>

definition senderKeyFprs :: "editor_env \<Rightarrow> string list" where
  "senderKeyFprs env =
     (if auto_add_primary (env_prefs env) then
        (case getPrimaryKeyFpr env (Some (mvelo_MAIN_KEYRING_ID env)) of
           None \<Rightarrow> []
         | Some fpr \<Rightarrow> if fpr \<noteq> [] then [fpr] else [])
      else [])"

text \<open>
  Kinds of effects: the calls of the crypto engine, the reports of an error to the editor,
  the container or the caller, and the steps of an unlock (the call of the password
  dialog and the request to show it).
\<close>

fun isEngineCall :: "effect \<Rightarrow> bool" where
  "isEngineCall (EngineEncrypt d fprs k) = True"
| "isEngineCall (EngineSign m k) = True"
| "isEngineCall ef = False"

fun isErrorReport :: "effect \<Rightarrow> bool" where
  "isErrorReport (Emit p (error_message e)) = True"
| "isErrorReport (EncryptDoneReject e) = True"
| "isErrorReport ef = False"

fun isUnlockStep :: "effect \<Rightarrow> bool" where
  "isUnlockStep (UnlockKeyCall req) = True"
| "isUnlockStep (Emit p (show_pwd_dialog i)) = True"
| "isUnlockStep ef = False"

text \<open>The request \<open>onSignOnly\<close> sends to the password dialog.\<close>

definition signOnly_request :: "editor_env \<Rightarrow> string option \<Rightarrow> unlock_request" where
  "signOnly_request env msg_signKeyFpr =
     \<lparr>reqKey = getPrivateKeyByFpr env (Some (mvelo_MAIN_KEYRING_ID env)) msg_signKeyFpr,
      reqReason = ''PWD_DIALOG_REASON_SIGN'', reqOpenPopup = False, reqNoCache = None\<rparr>"





definition finished :: "error + byte list \<Rightarrow> lookup_state \<Rightarrow> bool" where
  "finished d s \<longleftrightarrow>
     pumpState s = None \<and> dataPromise s = Some d \<and> settled (fetchPromise s) \<noteq> None"

section \<open>Z-base-32: the loop computes the encoding of the specification\<close>

lemma group_value_horner: "group_value g = horner_sum of_bool 2 (rev g)"
  unfolding group_value_def by (induction g rule: rev_induct) simp_all

lemma bit_group_value: "bit (group_value g) n \<longleftrightarrow> n < length g \<and> g ! (length g - 1 - n)"
  by (auto simp: group_value_horner bit_horner_sum_bit_iff rev_nth)

lemma MASK_mask: "MASK = mask 5"
  by (simp add: MASK_def mask_eq_exp_minus_1)

lemma emit_value:
  assumes "length pend = bl" "5 \<le> bl" "bl \<le> 13"
    and "\<forall>i<bl. bit (buffer :: 32 word) i = pend ! (bl - 1 - i)"
  shows "unat (MASK AND signed_drop_bit (bl - 5) buffer) = group_value (take 5 pend)"
proof (rule bit_eqI)
  fix n
  show "bit (unat (MASK AND signed_drop_bit (bl - 5) buffer)) n = bit (group_value (take 5 pend)) n"
  proof (cases "n < 5")
    case True
    with assms have "bit buffer (bl - 5 + n) = pend ! (4 - n)"
      by auto
    with True assms show ?thesis
      by (auto simp: bit_unsigned_iff MASK_mask bit_and_iff bit_mask_iff bit_signed_drop_bit_iff bit_group_value)
  next
    case False
    then show ?thesis
      by (auto simp: bit_unsigned_iff MASK_mask bit_and_iff bit_mask_iff bit_group_value)
  qed
qed

lemma groups5_long:
  assumes "5 \<le> length pend"
  shows "groups5 (pend @ rest) = take 5 pend # groups5 (drop 5 pend @ rest)"
proof -
  from assms obtain b bs where "pend = b # bs" by (cases pend) auto
  with assms show ?thesis by simp
qed

lemma groups5_last:
  assumes "0 < length pend" "length pend \<le> 5"
  shows "groups5 pend = [pend @ replicate (5 - length pend) False]"
proof -
  from assms obtain b bs where "pend = b # bs" by (cases pend) auto
  with assms show ?thesis by simp
qed

lemma loop_unfold_emit:
  assumes "SHIFT \<le> bitsLeft"
  shows "encodeZBase32_loop data buffer index bitsLeft result =
         encodeZBase32_loop data buffer index (bitsLeft - SHIFT)
           (result @ [ALPHABET ! unat (MASK AND signed_drop_bit (bitsLeft - SHIFT) buffer)])"
  using assms by (subst encodeZBase32_loop.simps) (simp add: SHIFT_def Let_def)

lemma loop_unfold_refill:
  assumes "bitsLeft < SHIFT" "index < length data"
  shows "encodeZBase32_loop data buffer index bitsLeft result =
         encodeZBase32_loop data (push_bit 8 buffer OR ucast (data ! index AND 0xff)) (index + 1)
           (bitsLeft + 8 - SHIFT)
           (result @ [ALPHABET ! unat (MASK AND signed_drop_bit (bitsLeft + 8 - SHIFT)
              (push_bit 8 buffer OR ucast (data ! index AND 0xff)))])"
  using assms by (subst encodeZBase32_loop.simps) (simp add: SHIFT_def Let_def)

lemma loop_unfold_pad:
  assumes "bitsLeft < SHIFT" "0 < bitsLeft" "length data \<le> index"
  shows "encodeZBase32_loop data buffer index bitsLeft result =
         result @ [ALPHABET ! unat (MASK AND push_bit (SHIFT - bitsLeft) buffer)]"
  using assms
  by (subst encodeZBase32_loop.simps, subst encodeZBase32_loop.simps) (simp add: SHIFT_def Let_def)

lemma loop_unfold_done:
  assumes "bitsLeft = 0" "length data \<le> index"
  shows "encodeZBase32_loop data buffer index bitsLeft result = result"
  using assms by (subst encodeZBase32_loop.simps) simp

lemma pending_drop5:
  assumes "pending buffer bl pend" "5 \<le> bl"
  shows "pending buffer (bl - 5) (drop 5 pend)"
  using assms unfolding pending_def by auto

lemma rev_upt8: "[7, 6, 5, 4, 3, 2, 1, 0] = rev [0..<8::nat]"
  by code_simp

lemma bits_of_byte_nth: "i < 8 \<Longrightarrow> bits_of_byte b ! (7 - i) = bit b i"
proof -
  assume i: "i < 8"
  have "bits_of_byte b = map (bit b) (rev [0..<8])"
    by (simp only: bits_of_byte_def rev_upt8)
  then have "bits_of_byte b ! (7 - i) = bit b (rev [0..<8] ! (7 - i))"
    using i by simp
  also have "rev [0..<8] ! (7 - i) = i"
    using i by (simp add: rev_nth)
  finally show ?thesis .
qed

lemma pending_refill:
  assumes "pending buffer bl pend" "bl < 5"
  shows "pending (push_bit 8 buffer OR ucast (b AND 0xff)) (bl + 8) (pend @ bits_of_byte (b :: byte))"
  unfolding pending_def
proof (intro conjI allI impI)
  show "length (pend @ bits_of_byte b) = bl + 8"
    using assms by (simp add: pending_def bits_of_byte_def)
next
  fix i assume i: "i < bl + 8"
  have "b AND 0xff = take_bit 8 b"
    by (simp add: take_bit_eq_mask mask_eq_exp_minus_1)
  then have ff: "b AND 0xff = b"
    by (simp add: take_bit_word_eq_self)
  show "bit (push_bit 8 buffer OR ucast (b AND 0xff)) i = (pend @ bits_of_byte b) ! (bl + 8 - 1 - i)"
  proof (cases "i < 8")
    case True
    have "bl + 8 - 1 - i = length pend + (7 - i)"
      using True assms by (simp add: pending_def)
    then have "(pend @ bits_of_byte b) ! (bl + 8 - 1 - i) = bits_of_byte b ! (7 - i)"
      by (simp only: nth_append_length_plus)
    with True show ?thesis
      by (simp add: ff bit_or_iff bit_push_bit_iff bit_unsigned_iff bits_of_byte_nth)
  next
    case False
    then have "(pend @ bits_of_byte b) ! (bl + 8 - 1 - i) = pend ! (bl - 1 - (i - 8))"
      using i assms by (auto simp: nth_append pending_def intro!: arg_cong[where f="nth pend"])
    moreover have "bit buffer (i - 8) = pend ! (bl - 1 - (i - 8))"
      using False i assms by (auto simp: pending_def)
    moreover have "\<not> bit b i"
      using False by (auto dest: bit_imp_le_length)
    ultimately show ?thesis
      using False i assms by (simp add: ff bit_or_iff bit_push_bit_iff bit_unsigned_iff)
  qed
qed

lemma pending_pad:
  assumes "pending buffer bl pend" "bl < 5"
  shows "pending (push_bit (5 - bl) buffer) 5 (pend @ replicate (5 - bl) False)"
  unfolding pending_def
proof (intro conjI allI impI)
  show "length (pend @ replicate (5 - bl) False) = 5"
    using assms by (simp add: pending_def)
next
  fix i :: nat assume i: "i < 5"
  show "bit (push_bit (5 - bl) buffer) i = (pend @ replicate (5 - bl) False) ! (5 - 1 - i)"
  proof (cases "i < 5 - bl")
    case True
    then have "5 - 1 - i = length pend + (4 - i - bl)"
      using assms by (simp add: pending_def)
    then have "(pend @ replicate (5 - bl) False) ! (5 - 1 - i) = replicate (5 - bl) False ! (4 - i - bl)"
      by (simp only: nth_append_length_plus)
    with True show ?thesis
      by (simp add: bit_push_bit_iff)
  next
    case False
    then have "4 - i < bl"
      using i by linarith
    then have "(pend @ replicate (5 - bl) False) ! (5 - 1 - i) = pend ! (4 - i)"
      using assms by (simp add: nth_append pending_def)
    moreover have "bit buffer (i - (5 - bl)) = pend ! (bl - 1 - (i - (5 - bl)))"
      using False assms i by (simp add: pending_def)
    moreover have "bl - 1 - (i - (5 - bl)) = 4 - i"
      using False assms i by simp
    ultimately show ?thesis
      using False i by (simp add: bit_push_bit_iff)
  qed
qed

lemma emit_pending:
  assumes "pending buffer bl pend" "5 \<le> bl" "bl \<le> 13"
  shows "unat (MASK AND signed_drop_bit (bl - 5) buffer) = group_value (take 5 pend)"
  using assms emit_value[of pend bl buffer] by (simp add: pending_def)

lemma loop_spec:
  assumes "pending buffer bitsLeft pend" "bitsLeft \<le> 8" "index \<le> length data"
  shows "encodeZBase32_loop data buffer index bitsLeft result =
         result @ map (\<lambda>g. ALPHABET ! group_value g)
           (groups5 (pend @ concat (map bits_of_byte (drop index data))))"
  using assms
proof (induction "8 * (length data - index) + bitsLeft" arbitrary: buffer index bitsLeft pend result
         rule: less_induct)
  case less
  have len: "length pend = bitsLeft" using less.prems(1) by (simp add: pending_def)
  consider (emit) "5 \<le> bitsLeft"
    | (refill) "bitsLeft < 5" "index < length data"
    | (pad) "bitsLeft < 5" "0 < bitsLeft" "length data \<le> index"
    | (finished) "bitsLeft = 0" "length data \<le> index"
    by linarith
  then show ?case
  proof cases
    case emit
    have "encodeZBase32_loop data buffer index (bitsLeft - 5)
            (result @ [ALPHABET ! unat (MASK AND signed_drop_bit (bitsLeft - 5) buffer)]) =
          (result @ [ALPHABET ! unat (MASK AND signed_drop_bit (bitsLeft - 5) buffer)]) @
            map (\<lambda>g. ALPHABET ! group_value g)
              (groups5 (drop 5 pend @ concat (map bits_of_byte (drop index data))))"
      using emit less.prems by (intro less.hyps pending_drop5) auto
    moreover have "unat (MASK AND signed_drop_bit (bitsLeft - 5) buffer) = group_value (take 5 pend)"
      using emit less.prems by (intro emit_pending) auto
    ultimately show ?thesis
      using emit len by (simp add: loop_unfold_emit SHIFT_def groups5_long)
  next
    case refill
    let ?b = "data ! index"
    let ?buf = "push_bit 8 buffer OR ucast (?b AND 0xff)"
    let ?pend = "pend @ bits_of_byte ?b"
    have p1: "pending ?buf (bitsLeft + 8) ?pend"
      using refill less.prems by (intro pending_refill) auto
    have dr: "drop index data = ?b # drop (index + 1) data"
      using refill by (simp add: Cons_nth_drop_Suc)
    have "encodeZBase32_loop data ?buf (index + 1) (bitsLeft + 8 - 5)
            (result @ [ALPHABET ! unat (MASK AND signed_drop_bit (bitsLeft + 8 - 5) ?buf)]) =
          (result @ [ALPHABET ! unat (MASK AND signed_drop_bit (bitsLeft + 8 - 5) ?buf)]) @
            map (\<lambda>g. ALPHABET ! group_value g)
              (groups5 (drop 5 ?pend @ concat (map bits_of_byte (drop (index + 1) data))))"
      using refill less.prems pending_drop5[OF p1] by (intro less.hyps) auto
    moreover have "unat (MASK AND signed_drop_bit (bitsLeft + 8 - 5) ?buf) = group_value (take 5 ?pend)"
      using refill p1 by (intro emit_pending) auto
    moreover have "groups5 (pend @ concat (map bits_of_byte (drop index data))) =
        take 5 ?pend # groups5 (drop 5 ?pend @ concat (map bits_of_byte (drop (index + 1) data)))"
      using groups5_long[of ?pend "concat (map bits_of_byte (drop (index + 1) data))"] len
      by (simp add: dr bits_of_byte_def)
    ultimately show ?thesis
      using refill by (simp add: loop_unfold_refill SHIFT_def)
  next
    case pad
    have p1: "pending (push_bit (5 - bitsLeft) buffer) 5 (pend @ replicate (5 - bitsLeft) False)"
      using pad less.prems by (intro pending_pad) auto
    have "unat (MASK AND signed_drop_bit (5 - 5) (push_bit (5 - bitsLeft) buffer)) =
          group_value (take 5 (pend @ replicate (5 - bitsLeft) False))"
      using p1 by (intro emit_pending) auto
    then show ?thesis
      using pad len by (simp add: loop_unfold_pad SHIFT_def groups5_last)
  next
    case finished
    then show ?thesis using len by (simp add: loop_unfold_done)
  qed
qed

lemma pending_first: "pending (ucast (b :: byte)) 8 (bits_of_byte b)"
  unfolding pending_def
proof (intro conjI allI impI)
  show "length (bits_of_byte b) = 8" by (simp add: bits_of_byte_def)
next
  fix i :: nat assume "i < 8"
  then show "bit (ucast b :: 32 word) i = bits_of_byte b ! (8 - 1 - i)"
    using bits_of_byte_nth[of i b] by (simp add: bit_unsigned_iff)
qed

lemma encodeZBase32_spec: "encodeZBase32 data = zbase32_spec data"
proof (cases data)
  case Nil
  then show ?thesis by (simp add: encodeZBase32_def zbase32_spec_def)
next
  case (Cons b bs)
  have "encodeZBase32_loop data (ucast b) 1 8 [] =
        [] @ map (\<lambda>g. ALPHABET ! group_value g)
           (groups5 (bits_of_byte b @ concat (map bits_of_byte (drop 1 data))))"
    using Cons by (intro loop_spec pending_first) auto
  with Cons show ?thesis by (simp add: encodeZBase32_def zbase32_spec_def)
qed

lemma groups5_length: "length (groups5 bs) = (length bs + 4) div 5"
proof (induction bs rule: groups5.induct)
  case 1
  then show ?case by simp
next
  case (2 b bs)
  then show ?case by (cases "length bs < 4") auto
qed

lemma concat_bits_length: "length (concat (map bits_of_byte data)) = 8 * length data"
  by (induction data) (simp_all add: bits_of_byte_def)

lemma zbase32_spec_length: "length (zbase32_spec data) = (8 * length data + 4) div 5"
  by (simp add: zbase32_spec_def groups5_length concat_bits_length)

section \<open>buildWKDUrl\<close>

lemma lines_of_single:
  "\<forall>c \<in> set s. \<not> isLineTerminator c \<Longrightarrow> lines_of s = [s]"
  by (induction s) auto

lemma exec_local_domain_split:
  assumes "\<forall>c \<in> set (localPart @ domain). \<not> isLineTerminator c" and "CHR ''@'' \<notin> set domain"
  shows "exec_local_domain (localPart @ ''@'' @ domain) = Some (localPart, domain)"
proof -
  have "\<not> isLineTerminator CHR ''@''" by (simp add: isLineTerminator_def)
  with assms(1) have "lines_of (localPart @ ''@'' @ domain) = [localPart @ ''@'' @ domain]"
    by (intro lines_of_single) auto
  moreover have "takeWhile (\<lambda>c. c \<noteq> CHR ''@'') (rev domain @ CHR ''@'' # rev localPart) = rev domain"
    using assms(2) by (subst takeWhile_append2) auto
  moreover have "dropWhile (\<lambda>c. c \<noteq> CHR ''@'') (rev domain @ CHR ''@'' # rev localPart) = CHR ''@'' # rev localPart"
    using assms(2) by (subst dropWhile_append2) auto
  ultimately show ?thesis
    by (simp add: exec_local_domain_def)
qed

lemma zbase32_joe_doe:
  "zbase32_spec [0xa8, 0x3e, 0xe9, 0x4b, 0xe8, 0x9c, 0x48, 0xa1, 0x1e, 0xd2,
                 0x5a, 0xb4, 0x4c, 0xfd, 0xc8, 0x48, 0x83, 0x3c, 0x8b, 0x6e] =
   ''iy9q119eutrkn8s1mk4r39qejnbu3n5q''"
  by code_simp

text \<open>
  C4. For an email \<open>localPart@domain\<close>, an address of one line split at its last \<open>@\<close> (no
  part holds a line terminator and the domain holds no \<open>@\<close>), \<open>buildWKDUrl\<close> fails when
  the local part or the domain is empty and otherwise returns
  \<open>https://domain/.well-known/openpgpkey/hu/\<close> followed by the Z-base-32 encoding of the
  SHA-1 digest of the lower-cased local part. \<open>encodeZBase32\<close> is that encoding on every
  input: the bits of the bytes, most significant first, are cut into groups of five, the
  last one filled with zeros, and each group selects a character of the alphabet
  \<open>ybndrfg8ejkmcpqxot1uwisza345h769\<close>; it writes one character for every five bits begun
  and no padding, and encodes the empty input as the empty string.
\<close>

theorem buildWKDUrl_zbase32:
  assumes "\<forall>c \<in> set (localPart @ domain). \<not> isLineTerminator c" and "CHR ''@'' \<notin> set domain"
  shows "buildWKDUrl x (localPart @ ''@'' @ domain) =
           (if localPart = [] \<or> domain = []
            then Inl (WKD_failed_to_parse (localPart @ ''@'' @ domain))
            else Inr (''https://'' @ domain @ ''/.well-known/openpgpkey/hu/'' @
                      zbase32_spec (sha1 x (toLowerCase x localPart))))
         \<and> encodeZBase32 data = zbase32_spec data
         \<and> zbase32_spec data =
             map (\<lambda>g. ''ybndrfg8ejkmcpqxot1uwisza345h769'' ! group_value g)
               (groups5 (concat (map bits_of_byte data)))
         \<and> length (encodeZBase32 data) = (8 * length data + 4) div 5
         \<and> encodeZBase32 [] = []"
proof -
  have "exec_local_domain (localPart @ ''@'' @ domain) = Some (localPart, domain)"
    using assms by (rule exec_local_domain_split)
  then have "buildWKDUrl x (localPart @ ''@'' @ domain) =
           (if localPart = [] \<or> domain = []
            then Inl (WKD_failed_to_parse (localPart @ ''@'' @ domain))
            else Inr (''https://'' @ domain @ ''/.well-known/openpgpkey/hu/'' @
                      zbase32_spec (sha1 x (toLowerCase x localPart))))"
    by (simp add: buildWKDUrl_def encodeZBase32_spec)
  moreover have "encodeZBase32 [] = []"
    by (simp add: encodeZBase32_def)
  moreover have "zbase32_spec data =
             map (\<lambda>g. ''ybndrfg8ejkmcpqxot1uwisza345h769'' ! group_value g)
               (groups5 (concat (map bits_of_byte data)))"
    by (simp only: zbase32_spec_def ALPHABET_def)
  moreover have "length (encodeZBase32 data) = (8 * length data + 4) div 5"
    by (simp add: encodeZBase32_spec zbase32_spec_length)
  moreover have "encodeZBase32 data = zbase32_spec data"
    by (rule encodeZBase32_spec)
  ultimately show ?thesis
    by blast
qed

theorem buildWKDUrl_zbase32_witness:
  "buildWKDUrl sample_ext ''Joe.Doe@example.org'' =
     Inr ''https://example.org/.well-known/openpgpkey/hu/iy9q119eutrkn8s1mk4r39qejnbu3n5q''
   \<and> buildWKDUrl sample_ext ''@example.org'' = Inl (WKD_failed_to_parse ''@example.org'')
   \<and> encodeZBase32 [0xff, 0x10, 0x20 :: byte] = zbase32_spec [0xff, 0x10, 0x20]"
proof -
  have h1: "\<forall>c \<in> set (''Joe.Doe'' @ ''example.org''). \<not> isLineTerminator c"
    by code_simp
  have h2: "CHR ''@'' \<notin> set ''example.org''"
    by simp
  have h3: "\<forall>c \<in> set ([] @ ''example.org''). \<not> isLineTerminator c"
    by code_simp
  have lc: "toLowerCase sample_ext ''Joe.Doe'' = ''joe.doe''"
    by code_simp
  have "sha1 sample_ext ''joe.doe'' =
          [0xa8, 0x3e, 0xe9, 0x4b, 0xe8, 0x9c, 0x48, 0xa1, 0x1e, 0xd2,
           0x5a, 0xb4, 0x4c, 0xfd, 0xc8, 0x48, 0x83, 0x3c, 0x8b, 0x6e]"
    by (simp add: sample_ext_def)
  then have enc: "zbase32_spec (sha1 sample_ext (toLowerCase sample_ext ''Joe.Doe'')) =
          ''iy9q119eutrkn8s1mk4r39qejnbu3n5q''"
    by (simp only: lc zbase32_joe_doe)
  show ?thesis
    using buildWKDUrl_zbase32[OF h1 h2, of sample_ext "[0xff, 0x10, 0x20]"]
          buildWKDUrl_zbase32[OF h3 h2, of sample_ext "[]"] enc
    by simp
qed


section \<open>sizeLimitResponse\<close>

lemma pump_within:
  "totalRead + length (concat reader) \<le> limit \<Longrightarrow>
   pump reader totalRead results limit = (Inr (concat (results @ reader)), [])"
  by (induction reader arbitrary: totalRead results) (simp_all add: Let_def)

lemma pump_exceeds:
  "totalRead \<le> limit \<Longrightarrow> limit < totalRead + length (concat reader) \<Longrightarrow>
   \<exists>n < length reader.
     pump reader totalRead results limit = (Inl WKD_response_too_long, drop (Suc n) reader)
     \<and> totalRead + length (concat (take n reader)) \<le> limit
     \<and> limit < totalRead + length (concat (take (Suc n) reader))"
proof (induction reader arbitrary: totalRead results)
  case Nil
  then show ?case by simp
next
  case (Cons chunk reader)
  show ?case
  proof (cases "limit < totalRead + length chunk")
    case True
    with Cons.prems have
      "pump (chunk # reader) totalRead results limit = (Inl WKD_response_too_long, drop (Suc 0) (chunk # reader))
       \<and> totalRead + length (concat (take 0 (chunk # reader))) \<le> limit
       \<and> limit < totalRead + length (concat (take (Suc 0) (chunk # reader)))"
      by (simp add: Let_def)
    then show ?thesis by blast
  next
    case False
    then have le: "totalRead + length chunk \<le> limit" by simp
    moreover have "limit < (totalRead + length chunk) + length (concat reader)"
      using Cons.prems by simp
    ultimately obtain n where n: "n < length reader"
      "pump reader (totalRead + length chunk) (results @ [chunk]) limit = (Inl WKD_response_too_long, drop (Suc n) reader)"
      "totalRead + length chunk + length (concat (take n reader)) \<le> limit"
      "limit < totalRead + length chunk + length (concat (take (Suc n) reader))"
      using Cons.IH[of "totalRead + length chunk" "results @ [chunk]"] by blast
    with False have
      "Suc n < length (chunk # reader)
       \<and> pump (chunk # reader) totalRead results limit = (Inl WKD_response_too_long, drop (Suc (Suc n)) (chunk # reader))
       \<and> totalRead + length (concat (take (Suc n) (chunk # reader))) \<le> limit
       \<and> limit < totalRead + length (concat (take (Suc (Suc n)) (chunk # reader)))"
      by (simp add: Let_def)
    then show ?thesis by blast
  qed
qed

text \<open>
  C2. \<open>sizeLimitResponse\<close> throws for every status other than 200, without reading the
  body. For status 200 it returns the whole body when the body has at most \<open>limit\<close> bytes.
  When the body is longer it throws the size-limit error at the first chunk with which the
  bytes read exceed the limit: the chunks up to it were read, those after it are left in
  the reader, and no data is returned. So a buffer is returned exactly for status 200 and
  a body within the limit. The limit \<open>lookup\<close> passes, \<open>SIZE_LIMIT * 1024\<close>, is 65536.
\<close>

theorem sizeLimitResponse_bounded:
  "(status res \<noteq> 200 \<longrightarrow>
      sizeLimitResponse res limit = (Inl (WKD_invalid_response (status res) (statusText res)), body res))
   \<and> (status res = 200 \<and> length (concat (body res)) \<le> limit \<longrightarrow>
      sizeLimitResponse res limit = (Inr (concat (body res)), []))
   \<and> (status res = 200 \<and> limit < length (concat (body res)) \<longrightarrow>
      (\<exists>n < length (body res).
         sizeLimitResponse res limit = (Inl WKD_response_too_long, drop (Suc n) (body res))
         \<and> length (concat (take n (body res))) \<le> limit
         \<and> limit < length (concat (take (Suc n) (body res)))))
   \<and> ((\<exists>d. fst (sizeLimitResponse res limit) = Inr d) \<longleftrightarrow>
        status res = 200 \<and> length (concat (body res)) \<le> limit)
   \<and> SIZE_LIMIT (WKDLocate_constructor wkd_blacklist) * 1024 = 65536"
proof -
  have a: "status res \<noteq> 200 \<longrightarrow>
      sizeLimitResponse res limit = (Inl (WKD_invalid_response (status res) (statusText res)), body res)"
    by (simp add: sizeLimitResponse_def)
  have b: "status res = 200 \<and> length (concat (body res)) \<le> limit \<longrightarrow>
      sizeLimitResponse res limit = (Inr (concat (body res)), [])"
    using pump_within[of 0 "body res" limit "[]"] by (simp add: sizeLimitResponse_def)
  have c: "status res = 200 \<and> limit < length (concat (body res)) \<longrightarrow>
      (\<exists>n < length (body res).
         sizeLimitResponse res limit = (Inl WKD_response_too_long, drop (Suc n) (body res))
         \<and> length (concat (take n (body res))) \<le> limit
         \<and> limit < length (concat (take (Suc n) (body res))))"
    using pump_exceeds[of 0 limit "body res" "[]"] by (simp add: sizeLimitResponse_def)
  have d: "(\<exists>d. fst (sizeLimitResponse res limit) = Inr d) \<longleftrightarrow>
        status res = 200 \<and> length (concat (body res)) \<le> limit"
  proof (cases "status res = 200")
    case False
    with a show ?thesis by simp
  next
    case True
    show ?thesis
    proof (cases "length (concat (body res)) \<le> limit")
      case True
      with \<open>status res = 200\<close> b show ?thesis by simp
    next
      case False
      with \<open>status res = 200\<close> c show ?thesis by auto
    qed
  qed
  have e: "SIZE_LIMIT (WKDLocate_constructor wkd_blacklist) * 1024 = 65536"
    by (simp add: WKDLocate_constructor_def)
  from a b c d e show ?thesis by blast
qed

theorem sizeLimitResponse_bounded_witness:
  "fst (sizeLimitResponse \<lparr>status = 404, statusText = ''Not Found'', body = [[1, 2]]\<rparr> 65536) =
     Inl (WKD_invalid_response 404 ''Not Found'')
   \<and> sizeLimitResponse \<lparr>status = 200, statusText = ''OK'', body = [[1, 2, 3], [4, 5], [6]]\<rparr> 6 =
     (Inr [1, 2, 3, 4, 5, 6], [])
   \<and> sizeLimitResponse \<lparr>status = 200, statusText = ''OK'', body = [[1, 2, 3], [4, 5], [6]]\<rparr> 4 =
     (Inl WKD_response_too_long, [[6]])"
proof -
  let ?r = "\<lparr>status = 200, statusText = ''OK'', body = [[1, 2, 3], [4, 5], [6 :: byte]]\<rparr>"
  have "\<exists>n < length (body ?r).
         sizeLimitResponse ?r 4 = (Inl WKD_response_too_long, drop (Suc n) (body ?r))
         \<and> length (concat (take n (body ?r))) \<le> 4
         \<and> 4 < length (concat (take (Suc n) (body ?r)))"
    using sizeLimitResponse_bounded[of ?r 4 None] by simp
  then obtain n where n: "n < length (body ?r)"
      "sizeLimitResponse ?r 4 = (Inl WKD_response_too_long, drop (Suc n) (body ?r))"
      "length (concat (take n (body ?r))) \<le> 4"
      "4 < length (concat (take (Suc n) (body ?r)))"
    by blast
  from n(1) have "n = 0 \<or> n = 1 \<or> n = 2" by auto
  with n(3,4) have "n = 1" by auto
  with n(2) have "sizeLimitResponse ?r 4 = (Inl WKD_response_too_long, [[6]])" by simp
  then show ?thesis
    using sizeLimitResponse_bounded[of "\<lparr>status = 404, statusText = ''Not Found'', body = [[1, 2]]\<rparr>" 65536 None]
          sizeLimitResponse_bounded[of ?r 6 None]
    by simp
qed

section \<open>parseKeysForEMail\<close>

lemma keepUsers_filter:
  "keepUsers x email us kept =
     (if \<exists>u \<in> set us. userId u = None then Inl TypeError
      else Inr (kept @ filter (matches x email) us))"
  by (induction us arbitrary: kept) (auto simp: matches_def Let_def split: option.splits)

lemma inspectKey_filter:
  "inspectKey x email onlyOne key0 sel =
     (if \<exists>u \<in> set (users key0). userId u = None then Inl TypeError
      else if filter (matches x email) (users key0) = [] then Inr sel
      else if onlyOne
      then Inr (sel\<lparr>candidate :=
                  Some (pick x (candidate sel) (key0\<lparr>users := filter (matches x email) (users key0)\<rparr>))\<rparr>)
      else Inr (sel\<lparr>keptArmoredKeys := keptArmoredKeys sel @
                  [armor x (key0\<lparr>users := filter (matches x email) (users key0)\<rparr>)]\<rparr>))"
  by (auto simp: inspectKey_def keepUsers_filter pick_def isValid_def Let_def split: option.splits)

lemma surviving_Nil: "surviving x email [] = []"
  by (simp add: surviving_def)

lemma surviving_Cons:
  "surviving x email (k # ks) =
     (if filter (matches x email) (users k) = [] then surviving x email ks
      else k\<lparr>users := filter (matches x email) (users k)\<rparr> # surviving x email ks)"
  by (simp add: surviving_def)

lemma inspectKeys_TypeError:
  "\<exists>k \<in> set ks. \<exists>u \<in> set (users k). userId u = None \<Longrightarrow>
   inspectKeys x email onlyOne ks sel = Inl TypeError"
proof (induction ks arbitrary: sel)
  case Nil
  then show ?case by simp
next
  case (Cons k ks)
  show ?case
  proof (cases "\<exists>u \<in> set (users k). userId u = None")
    case True
    then show ?thesis by (simp add: inspectKey_filter)
  next
    case False
    with Cons.prems have "\<exists>k \<in> set ks. \<exists>u \<in> set (users k). userId u = None" by auto
    then have "\<And>sel1. inspectKeys x email onlyOne ks sel1 = Inl TypeError"
      by (rule Cons.IH)
    with False show ?thesis by (cases onlyOne) (auto simp: inspectKey_filter)
  qed
qed

lemma inspectKeys_all:
  "\<forall>k \<in> set ks. \<forall>u \<in> set (users k). userId u \<noteq> None \<Longrightarrow>
   inspectKeys x email False ks sel =
     Inr (sel\<lparr>keptArmoredKeys := keptArmoredKeys sel @ map (armor x) (surviving x email ks)\<rparr>)"
  by (induction ks arbitrary: sel) (auto simp: inspectKey_filter surviving_Nil surviving_Cons)

lemma noWorse_refl: "noWorse x c c"
  by (simp add: noWorse_def)

lemma noWorse_trans: "noWorse x c b \<Longrightarrow> noWorse x b a \<Longrightarrow> noWorse x c a"
  by (auto simp: noWorse_def)

lemma pick_noWorse: "noWorse x (pick x (Some c) k) c \<and> noWorse x (pick x (Some c) k) k"
  by (auto simp: pick_def noWorse_def)

lemma pick_mem: "pick x (Some c) k = c \<or> pick x (Some c) k = k"
  by (simp add: pick_def)

text \<open>
  The candidate after the loop, when one was held before it: a key of the loop or the one
  held, and none of them is preferred over it.
\<close>

lemma inspectKeys_candidate:
  "\<forall>k \<in> set ks. \<forall>u \<in> set (users k). userId u \<noteq> None \<Longrightarrow> candidate sel = Some c0 \<Longrightarrow>
   \<exists>c. inspectKeys x email True ks sel = Inr (sel\<lparr>candidate := Some c\<rparr>)
       \<and> (c = c0 \<or> c \<in> set (surviving x email ks))
       \<and> noWorse x c c0 \<and> (\<forall>k \<in> set (surviving x email ks). noWorse x c k)"
proof (induction ks arbitrary: sel c0)
  case Nil
  then show ?case by (simp add: surviving_Nil noWorse_refl)
next
  case (Cons k ks)
  let ?fk = "k\<lparr>users := filter (matches x email) (users k)\<rparr>"
  show ?case
  proof (cases "filter (matches x email) (users k) = []")
    case True
    with Cons.prems Cons.IH[of sel c0] show ?thesis
      by (simp add: inspectKey_filter surviving_Cons)
  next
    case False
    let ?c1 = "pick x (Some c0) ?fk"
    let ?sel1 = "sel\<lparr>candidate := Some ?c1\<rparr>"
    from Cons.prems have "\<forall>k \<in> set ks. \<forall>u \<in> set (users k). userId u \<noteq> None" by simp
    moreover have "candidate ?sel1 = Some ?c1" by simp
    ultimately obtain c where c:
      "inspectKeys x email True ks ?sel1 = Inr (?sel1\<lparr>candidate := Some c\<rparr>)"
      "c = ?c1 \<or> c \<in> set (surviving x email ks)"
      "noWorse x c ?c1" "\<forall>k \<in> set (surviving x email ks). noWorse x c k"
      using Cons.IH[of ?sel1 ?c1] by blast
    have step: "inspectKeys x email True (k # ks) sel = Inr (sel\<lparr>candidate := Some c\<rparr>)"
      using False Cons.prems c(1) by (simp add: inspectKey_filter)
    have mem: "c = c0 \<or> c \<in> set (surviving x email (k # ks))"
      using False c(2) pick_mem[of x c0 ?fk] by (auto simp: surviving_Cons)
    have "noWorse x c c0" "noWorse x c ?fk"
      using c(3) pick_noWorse[of x c0 ?fk] noWorse_trans by blast+
    with c(4) False have "noWorse x c c0 \<and> (\<forall>k \<in> set (surviving x email (k # ks)). noWorse x c k)"
      by (simp add: surviving_Cons)
    with step mem show ?thesis by blast
  qed
qed

lemma inspectKeys_first:
  assumes "\<forall>k \<in> set ks. \<forall>u \<in> set (users k). userId u \<noteq> None"
  shows "(surviving x email ks = [] \<longrightarrow>
            inspectKeys x email True ks \<lparr>keptArmoredKeys = [], candidate = None\<rparr> =
              Inr \<lparr>keptArmoredKeys = [], candidate = None\<rparr>)
       \<and> (surviving x email ks \<noteq> [] \<longrightarrow>
            (\<exists>c \<in> set (surviving x email ks).
               inspectKeys x email True ks \<lparr>keptArmoredKeys = [], candidate = None\<rparr> =
                 Inr \<lparr>keptArmoredKeys = [], candidate = Some c\<rparr>
               \<and> (\<forall>k \<in> set (surviving x email ks). noWorse x c k)))"
  using assms
proof (induction ks)
  case Nil
  then show ?case by (simp add: surviving_Nil)
next
  case (Cons k ks)
  let ?fk = "k\<lparr>users := filter (matches x email) (users k)\<rparr>"
  let ?sel0 = "\<lparr>keptArmoredKeys = [], candidate = None\<rparr>"
  show ?case
  proof (cases "filter (matches x email) (users k) = []")
    case True
    with Cons show ?thesis
      by (simp add: inspectKey_filter surviving_Cons)
  next
    case False
    let ?sel1 = "?sel0\<lparr>candidate := Some ?fk\<rparr>"
    from Cons.prems have "\<forall>k \<in> set ks. \<forall>u \<in> set (users k). userId u \<noteq> None" by simp
    moreover have "candidate ?sel1 = Some ?fk" by simp
    ultimately obtain c where c:
      "inspectKeys x email True ks ?sel1 = Inr (?sel1\<lparr>candidate := Some c\<rparr>)"
      "c = ?fk \<or> c \<in> set (surviving x email ks)"
      "noWorse x c ?fk" "\<forall>k \<in> set (surviving x email ks). noWorse x c k"
      using inspectKeys_candidate[of ks ?sel1 ?fk x email] by blast
    have "inspectKeys x email True (k # ks) ?sel0 = Inr \<lparr>keptArmoredKeys = [], candidate = Some c\<rparr>"
      using False Cons.prems c(1) by (simp add: inspectKey_filter pick_def)
    moreover have "c \<in> set (surviving x email (k # ks))"
      using False c(2) by (auto simp: surviving_Cons)
    moreover have "\<forall>k \<in> set (surviving x email (k # ks)). noWorse x c k"
      using False c(3,4) by (simp add: surviving_Cons)
    ultimately show ?thesis
      using False by (auto simp: surviving_Cons)
  qed
qed


lemma parse_rerr:
  "rerr (key_read x data) = Some e \<Longrightarrow>
   parseKeysForEMail x data email onlyOne = Inl (WKD_failed_to_parse_result email e)"
  by (simp add: parseKeysForEMail_def Let_def)

lemma parse_TypeError:
  "rerr (key_read x data) = None \<Longrightarrow>
   \<exists>k \<in> set (rkeys (key_read x data)). \<exists>u \<in> set (users k). userId u = None \<Longrightarrow>
   parseKeysForEMail x data email onlyOne = Inl (WKD_error_handling_keys TypeError)"
  by (simp add: parseKeysForEMail_def Let_def inspectKeys_TypeError)

lemma parse_all:
  assumes "rerr (key_read x data) = None"
    and "\<forall>k \<in> set (rkeys (key_read x data)). \<forall>u \<in> set (users k). userId u \<noteq> None"
  shows "parseKeysForEMail x data email False =
           (if surviving x email (rkeys (key_read x data)) = []
            then Inl (WKD_error_handling_keys WKD_no_matching_key)
            else Inr (ArmoredList (map (armor x) (surviving x email (rkeys (key_read x data))))))"
  using assms by (simp add: parseKeysForEMail_def Let_def inspectKeys_all)

lemma parse_one:
  assumes "rerr (key_read x data) = None"
    and "\<forall>k \<in> set (rkeys (key_read x data)). \<forall>u \<in> set (users k). userId u \<noteq> None"
  shows "(surviving x email (rkeys (key_read x data)) = [] \<longrightarrow>
            parseKeysForEMail x data email True = Inl (WKD_error_handling_keys WKD_no_matching_key))
       \<and> (surviving x email (rkeys (key_read x data)) \<noteq> [] \<longrightarrow>
            (\<exists>c \<in> set (surviving x email (rkeys (key_read x data))).
               parseKeysForEMail x data email True = Inr (Armored (armor x c))
               \<and> (\<forall>k \<in> set (surviving x email (rkeys (key_read x data))). noWorse x c k)))"
proof (cases "surviving x email (rkeys (key_read x data)) = []")
  case True
  with inspectKeys_first[OF assms(2), of x email] assms(1) show ?thesis
    by (simp add: parseKeysForEMail_def Let_def)
next
  case False
  with inspectKeys_first[OF assms(2), of x email] obtain c where c:
    "c \<in> set (surviving x email (rkeys (key_read x data)))"
    "inspectKeys x email True (rkeys (key_read x data)) \<lparr>keptArmoredKeys = [], candidate = None\<rparr> =
       Inr \<lparr>keptArmoredKeys = [], candidate = Some c\<rparr>"
    "\<forall>k \<in> set (surviving x email (rkeys (key_read x data))). noWorse x c k"
    by blast
  from c(2) assms(1) have "parseKeysForEMail x data email True = Inr (Armored (armor x c))"
    by (simp add: parseKeysForEMail_def Let_def)
  with c(1,3) False show ?thesis by blast
qed

lemma surviving_users:
  assumes "k \<in> set (surviving x email ks)"
  shows "users k \<noteq> []
       \<and> (\<forall>u \<in> set (users k). \<exists>userid. userId u = Some userid \<and>
             toLowerCase x (mEmail (mapKeyUserIds x userid)) = toLowerCase x email)
       \<and> (\<exists>k0 \<in> set ks. k = k0\<lparr>users := filter (matches x email) (users k0)\<rparr>)"
proof -
  from assms obtain k0 where k0: "k0 \<in> set ks" "k = k0\<lparr>users := filter (matches x email) (users k0)\<rparr>"
    "users k \<noteq> []"
    by (auto simp: surviving_def)
  have "\<forall>u \<in> set (users k). \<exists>userid. userId u = Some userid \<and>
             toLowerCase x (mEmail (mapKeyUserIds x userid)) = toLowerCase x email"
    using k0(2) by (auto simp: matches_def split: option.splits)
  with k0 show ?thesis by blast
qed

text \<open>
  C1. Whatever \<open>parseKeysForEMail\<close> returns is made of the surviving keys: all of them, in
  the order of the response, when every match is asked for, and one of them when only one
  is. A surviving key has at least one user identity, each of its identities has an email
  equal to the queried one up to case, and it is a key of the response with the other
  identities removed; so a key without matching identity is not returned. When no key
  survives the function throws. When the response parses, no user lacks a user id packet
  and some key survives, the list of all surviving keys is returned.
\<close>

theorem parseKeysForEMail_filters:
  "(parseKeysForEMail x data email False = Inr r \<longrightarrow>
      r = ArmoredList (map (armor x) (surviving x email (rkeys (key_read x data))))
      \<and> surviving x email (rkeys (key_read x data)) \<noteq> [])
   \<and> (parseKeysForEMail x data email True = Inr r \<longrightarrow>
      (\<exists>c \<in> set (surviving x email (rkeys (key_read x data))). r = Armored (armor x c)))
   \<and> (\<forall>k \<in> set (surviving x email ks).
        users k \<noteq> []
        \<and> (\<forall>u \<in> set (users k). \<exists>userid. userId u = Some userid \<and>
              toLowerCase x (mEmail (mapKeyUserIds x userid)) = toLowerCase x email)
        \<and> (\<exists>k0 \<in> set ks. k = k0\<lparr>users := filter (matches x email) (users k0)\<rparr>))
   \<and> (surviving x email (rkeys (key_read x data)) = [] \<longrightarrow>
        (\<exists>e. parseKeysForEMail x data email onlyOne = Inl e))
   \<and> (rerr (key_read x data) = None
        \<and> (\<forall>k \<in> set (rkeys (key_read x data)). \<forall>u \<in> set (users k). userId u \<noteq> None)
        \<and> surviving x email (rkeys (key_read x data)) \<noteq> [] \<longrightarrow>
        parseKeysForEMail x data email False =
          Inr (ArmoredList (map (armor x) (surviving x email (rkeys (key_read x data))))))"
proof -
  let ?ks = "rkeys (key_read x data)"
  have main:
    "(parseKeysForEMail x data email False = Inr r \<longrightarrow>
        r = ArmoredList (map (armor x) (surviving x email ?ks)) \<and> surviving x email ?ks \<noteq> [])
     \<and> (parseKeysForEMail x data email True = Inr r \<longrightarrow>
        (\<exists>c \<in> set (surviving x email ?ks). r = Armored (armor x c)))
     \<and> (surviving x email ?ks = [] \<longrightarrow> (\<exists>e. parseKeysForEMail x data email onlyOne = Inl e))
     \<and> (rerr (key_read x data) = None
        \<and> (\<forall>k \<in> set ?ks. \<forall>u \<in> set (users k). userId u \<noteq> None)
        \<and> surviving x email ?ks \<noteq> [] \<longrightarrow>
        parseKeysForEMail x data email False = Inr (ArmoredList (map (armor x) (surviving x email ?ks))))"
  proof (cases "rerr (key_read x data)")
    case (Some e)
    then show ?thesis by (simp add: parse_rerr)
  next
    case None
    show ?thesis
    proof (cases "\<exists>k \<in> set ?ks. \<exists>u \<in> set (users k). userId u = None")
      case True
      with None show ?thesis by (auto simp: parse_TypeError)
    next
      case False
      then have regular: "\<forall>k \<in> set ?ks. \<forall>u \<in> set (users k). userId u \<noteq> None"
        by simp
      show ?thesis
      proof (cases onlyOne)
        case True
        with parse_all[OF None regular, of email] parse_one[OF None regular, of email]
        show ?thesis by auto
      next
        case False
        with parse_all[OF None regular, of email] parse_one[OF None regular, of email]
        show ?thesis by auto
      qed
    qed
  qed
  have "\<forall>k \<in> set (surviving x email ks).
        users k \<noteq> []
        \<and> (\<forall>u \<in> set (users k). \<exists>userid. userId u = Some userid \<and>
              toLowerCase x (mEmail (mapKeyUserIds x userid)) = toLowerCase x email)
        \<and> (\<exists>k0 \<in> set ks. k = k0\<lparr>users := filter (matches x email) (users k0)\<rparr>)"
    using surviving_users by blast
  with main show ?thesis by blast
qed

theorem parseKeysForEMail_filters_witness:
  "parseKeysForEMail sample_ext [1, 2, 3] ''alice@example.org'' False =
     Inr (ArmoredList [''AA01'', ''BB02''])
   \<and> surviving sample_ext ''alice@example.org'' (map sample_key [1, 2, 3]) =
       [\<lparr>fingerprint = ''AA01'', keyIdHex = ''aa01'', created = 1000,
          users = [\<lparr>userId = Some ''Alice@Example.org''\<rparr>]\<rparr>,
        \<lparr>fingerprint = ''BB02'', keyIdHex = ''bb02'', created = 2000,
          users = [\<lparr>userId = Some ''alice@example.org''\<rparr>]\<rparr>]
   \<and> (\<exists>e. parseKeysForEMail sample_ext [3] ''alice@example.org'' True = Inl e)"
proof -
  let ?e = "''alice@example.org''"
  have s: "surviving sample_ext ?e (map sample_key [1, 2, 3]) =
       [\<lparr>fingerprint = ''AA01'', keyIdHex = ''aa01'', created = 1000,
          users = [\<lparr>userId = Some ''Alice@Example.org''\<rparr>]\<rparr>,
        \<lparr>fingerprint = ''BB02'', keyIdHex = ''bb02'', created = 2000,
          users = [\<lparr>userId = Some ''alice@example.org''\<rparr>]\<rparr>]"
    by code_simp
  have h1: "rerr (key_read sample_ext [1, 2, 3]) = None"
    by (simp add: sample_ext_def)
  have h2: "\<forall>k \<in> set (rkeys (key_read sample_ext [1, 2, 3])). \<forall>u \<in> set (users k). userId u \<noteq> None"
    by code_simp
  have h3: "surviving sample_ext ?e (rkeys (key_read sample_ext [1, 2, 3])) \<noteq> []"
    by code_simp
  have m: "map (armor sample_ext) (surviving sample_ext ?e (rkeys (key_read sample_ext [1, 2, 3]))) =
             [''AA01'', ''BB02'']"
    by code_simp
  have s3: "surviving sample_ext ?e (rkeys (key_read sample_ext [3])) = []"
    by code_simp
  have "parseKeysForEMail sample_ext [1, 2, 3] ?e False =
          Inr (ArmoredList (map (armor sample_ext)
                 (surviving sample_ext ?e (rkeys (key_read sample_ext [1, 2, 3])))))"
    using parseKeysForEMail_filters[of sample_ext "[1, 2, 3]" ?e "ArmoredList []" "[]" False] h1 h2 h3
    by blast
  then have "parseKeysForEMail sample_ext [1, 2, 3] ?e False = Inr (ArmoredList [''AA01'', ''BB02''])"
    by (simp only: m)
  moreover have "\<exists>e. parseKeysForEMail sample_ext [3] ?e True = Inl e"
    using parseKeysForEMail_filters[of sample_ext "[3]" ?e "ArmoredList []" "[]" True] s3
    by blast
  ultimately show ?thesis using s by blast
qed


text \<open>
  The selection on a response in which every user has a user id packet. When the response
  parses and a key survives the filtering, \<open>parseKeysForEMail\<close> with \<open>onlyOne\<close> returns
  the armor of a surviving key \<open>c\<close> such that for every surviving key \<open>k\<close>: if \<open>k\<close>
  verifies as valid so does \<open>c\<close>, and if both have the same validity then \<open>c\<close> was not
  created before \<open>k\<close>. In particular, of two surviving keys of which one is valid and the
  other is not, the valid one is returned, and of two of equal validity the one created
  later. Validity is that of the key with the user identities that were kept.
\<close>

lemma parseKeysForEMail_prefers:
  assumes "rerr (key_read x data) = None"
    and "\<forall>k \<in> set (rkeys (key_read x data)). \<forall>u \<in> set (users k). userId u \<noteq> None"
    and "surviving x email (rkeys (key_read x data)) \<noteq> []"
  shows "(\<exists>c \<in> set (surviving x email (rkeys (key_read x data))).
            parseKeysForEMail x data email True = Inr (Armored (armor x c))
            \<and> (\<forall>k \<in> set (surviving x email (rkeys (key_read x data))).
                  (isValid x k \<longrightarrow> isValid x c)
                  \<and> (isValid x k = isValid x c \<longrightarrow> created k \<le> created c)))
       \<and> (set (surviving x email (rkeys (key_read x data))) = {k1, k2}
            \<and> \<not> isValid x k1 \<and> isValid x k2 \<longrightarrow>
            parseKeysForEMail x data email True = Inr (Armored (armor x k2)))
       \<and> (set (surviving x email (rkeys (key_read x data))) = {k1, k2}
            \<and> isValid x k1 = isValid x k2 \<and> created k1 < created k2 \<longrightarrow>
            parseKeysForEMail x data email True = Inr (Armored (armor x k2)))"
proof -
  let ?S = "surviving x email (rkeys (key_read x data))"
  from parse_one[OF assms(1,2), of email] assms(3) obtain c where c:
    "c \<in> set ?S" "parseKeysForEMail x data email True = Inr (Armored (armor x c))"
    "\<forall>k \<in> set ?S. noWorse x c k"
    by blast
  from c(3) have pref: "\<forall>k \<in> set ?S.
      (isValid x k \<longrightarrow> isValid x c) \<and> (isValid x k = isValid x c \<longrightarrow> created k \<le> created c)"
    by (simp add: noWorse_def)
  have two_a: "parseKeysForEMail x data email True = Inr (Armored (armor x k2))"
    if "set ?S = {k1, k2}" "\<not> isValid x k1" "isValid x k2"
  proof -
    from that(1) c(1) have "c = k1 \<or> c = k2" by auto
    moreover from that(1) pref have "isValid x k2 \<longrightarrow> isValid x c" by auto
    ultimately have "c = k2" using that(2,3) by auto
    with c(2) show ?thesis by simp
  qed
  have two_b: "parseKeysForEMail x data email True = Inr (Armored (armor x k2))"
    if "set ?S = {k1, k2}" "isValid x k1 = isValid x k2" "created k1 < created k2"
  proof -
    from that(1) c(1) have "c = k1 \<or> c = k2" by auto
    moreover from that(1) pref have "isValid x k2 = isValid x c \<longrightarrow> created k2 \<le> created c" by auto
    ultimately have "c = k2" using that(2,3) by auto
    with c(2) show ?thesis by simp
  qed
  from c(1,2) pref two_a two_b show ?thesis by blast
qed

lemma parseKeysForEMail_prefers_sample:
  "parseKeysForEMail sample_ext [2, 4] ''alice@example.org'' True = Inr (Armored ''DD04'')
   \<and> parseKeysForEMail sample_ext [4, 2] ''alice@example.org'' True = Inr (Armored ''DD04'')
   \<and> parseKeysForEMail sample_ext [1, 4] ''alice@example.org'' True = Inr (Armored ''DD04'')
   \<and> parseKeysForEMail sample_ext [4, 1] ''alice@example.org'' True = Inr (Armored ''DD04'')"
proof -
  let ?e = "''alice@example.org''"
  let ?k1 = "\<lparr>fingerprint = ''AA01'', keyIdHex = ''aa01'', created = 1000,
               users = [\<lparr>userId = Some ''Alice@Example.org''\<rparr>]\<rparr>"
  let ?k2 = "\<lparr>fingerprint = ''BB02'', keyIdHex = ''bb02'', created = 2000,
               users = [\<lparr>userId = Some ''alice@example.org''\<rparr>]\<rparr>"
  let ?k4 = "\<lparr>fingerprint = ''DD04'', keyIdHex = ''dd04'', created = 2500,
               users = [\<lparr>userId = Some ''alice@example.org''\<rparr>]\<rparr>"
  have a: "armor sample_ext ?k4 = ''DD04''"
    by (simp add: sample_ext_def)
  have v: "\<not> isValid sample_ext ?k2" "isValid sample_ext ?k4" "isValid sample_ext ?k1"
    by (simp_all add: isValid_def sample_ext_def)
  have r: "rerr (key_read sample_ext d) = None" for d
    by (simp add: sample_ext_def)
  have u24: "\<forall>k \<in> set (rkeys (key_read sample_ext [2, 4])). \<forall>u \<in> set (users k). userId u \<noteq> None"
    and u42: "\<forall>k \<in> set (rkeys (key_read sample_ext [4, 2])). \<forall>u \<in> set (users k). userId u \<noteq> None"
    and u14: "\<forall>k \<in> set (rkeys (key_read sample_ext [1, 4])). \<forall>u \<in> set (users k). userId u \<noteq> None"
    and u41: "\<forall>k \<in> set (rkeys (key_read sample_ext [4, 1])). \<forall>u \<in> set (users k). userId u \<noteq> None"
    by code_simp+
  have s24: "surviving sample_ext ?e (rkeys (key_read sample_ext [2, 4])) = [?k2, ?k4]"
    and s42: "surviving sample_ext ?e (rkeys (key_read sample_ext [4, 2])) = [?k4, ?k2]"
    and s14: "surviving sample_ext ?e (rkeys (key_read sample_ext [1, 4])) = [?k1, ?k4]"
    and s41: "surviving sample_ext ?e (rkeys (key_read sample_ext [4, 1])) = [?k4, ?k1]"
    by code_simp+
  have "parseKeysForEMail sample_ext [2, 4] ?e True = Inr (Armored (armor sample_ext ?k4))"
    using parseKeysForEMail_prefers[OF r u24, of ?e ?k2 ?k4] v by (simp add: s24)
  moreover have "parseKeysForEMail sample_ext [4, 2] ?e True = Inr (Armored (armor sample_ext ?k4))"
    using parseKeysForEMail_prefers[OF r u42, of ?e ?k2 ?k4] v by (simp add: s42 insert_commute)
  moreover have "parseKeysForEMail sample_ext [1, 4] ?e True = Inr (Armored (armor sample_ext ?k4))"
    using parseKeysForEMail_prefers[OF r u14, of ?e ?k1 ?k4] v by (simp add: s14)
  moreover have "parseKeysForEMail sample_ext [4, 1] ?e True = Inr (Armored (armor sample_ext ?k4))"
    using parseKeysForEMail_prefers[OF r u41, of ?e ?k1 ?k4] v by (simp add: s41 insert_commute)
  ultimately show ?thesis by (simp only: a) 
qed

text \<open>
  C5. Of two keys that survive the filtering, one invalid and older, the other valid and
  newer, the valid one is to be selected. When the valid key also carries a user
  attribute, a user without user id packet, the callback of \<open>key.users.forEach\<close> throws a
  \<open>TypeError\<close> at \<open>user.userId.userid\<close> and \<open>parseKeysForEMail\<close> selects no key: it fails
  with \<open>WKD: Error handling keys\<close>. The same happens on every response that parses and
  holds such a user.
\<close>

theorem parseKeysForEMail_user_attribute:
  "parseKeysForEMail sample_ext [2, 6] ''alice@example.org'' True =
     Inl (WKD_error_handling_keys TypeError)
   \<and> surviving sample_ext ''alice@example.org'' (rkeys (key_read sample_ext [2, 6])) =
       [\<lparr>fingerprint = ''BB02'', keyIdHex = ''bb02'', created = 2000,
          users = [\<lparr>userId = Some ''alice@example.org''\<rparr>]\<rparr>,
        \<lparr>fingerprint = ''FF06'', keyIdHex = ''ff06'', created = 5000,
          users = [\<lparr>userId = Some ''alice@example.org''\<rparr>]\<rparr>]
   \<and> \<not> isValid sample_ext \<lparr>fingerprint = ''BB02'', keyIdHex = ''bb02'', created = 2000,
          users = [\<lparr>userId = Some ''alice@example.org''\<rparr>]\<rparr>
   \<and> isValid sample_ext \<lparr>fingerprint = ''FF06'', keyIdHex = ''ff06'', created = 5000,
          users = [\<lparr>userId = Some ''alice@example.org''\<rparr>]\<rparr>
   \<and> userId (users (sample_key 6) ! 1) = None"
proof -
  have e: "parseKeysForEMail sample_ext [2, 6] ''alice@example.org'' True =
     Inl (WKD_error_handling_keys TypeError)"
    by code_simp
  have s: "surviving sample_ext ''alice@example.org'' (rkeys (key_read sample_ext [2, 6])) =
       [\<lparr>fingerprint = ''BB02'', keyIdHex = ''bb02'', created = 2000,
          users = [\<lparr>userId = Some ''alice@example.org''\<rparr>]\<rparr>,
        \<lparr>fingerprint = ''FF06'', keyIdHex = ''ff06'', created = 5000,
          users = [\<lparr>userId = Some ''alice@example.org''\<rparr>]\<rparr>]"
    by code_simp
  have v: "\<not> isValid sample_ext \<lparr>fingerprint = ''BB02'', keyIdHex = ''bb02'', created = 2000,
          users = [\<lparr>userId = Some ''alice@example.org''\<rparr>]\<rparr>"
    "isValid sample_ext \<lparr>fingerprint = ''FF06'', keyIdHex = ''ff06'', created = 5000,
          users = [\<lparr>userId = Some ''alice@example.org''\<rparr>]\<rparr>"
    by (simp_all add: isValid_def sample_ext_def)
  have u: "userId (users (sample_key 6) ! 1) = None"
    by (simp add: sample_key_def)
  from e s v u show ?thesis by blast
qed

section \<open>AutoLocate.locate\<close>
















section \<open>getPublicKeyFprs\<close>

lemma distinct_remdups_adj_sorted: "sorted xs \<Longrightarrow> distinct (remdups_adj xs)"
  by (induction xs rule: remdups_adj.induct) auto

lemma sortAndDeDup_sorted: "sorted (sortAndDeDup xs)"
  by (simp add: sortAndDeDup_def)

lemma sortAndDeDup_distinct: "distinct (sortAndDeDup xs)"
  by (simp add: sortAndDeDup_def distinct_remdups_adj_sorted)

lemma sortAndDeDup_set: "set (sortAndDeDup xs) = set xs"
  by (simp add: sortAndDeDup_def)

lemma sortAndDeDup_cong: "set xs = set ys \<Longrightarrow> sortAndDeDup xs = sortAndDeDup ys"
  by (intro sorted_distinct_set_unique)
     (simp_all add: sortAndDeDup_sorted sortAndDeDup_distinct sortAndDeDup_set)

lemma sortAndDeDup_idem: "sortAndDeDup (sortAndDeDup xs) = sortAndDeDup xs"
  by (rule sortAndDeDup_cong) (simp add: sortAndDeDup_set)

text \<open>The list \<open>getPublicKeyFprs\<close> hands to \<open>sortAndDeDup\<close>.\<close>

lemma getPublicKeyFprs_sortAndDeDup:
  "getPublicKeyFprs env this ks =
     sortAndDeDup
       (case keyFprBuffer this of
          Some buffer \<Rightarrow> buffer
        | None \<Rightarrow> map rFingerprint ks @ senderKeyFprs env)"
  by (auto simp: getPublicKeyFprs_def senderKeyFprs_def Let_def split: option.splits)

lemma senderKeyFprs_primary:
  "auto_add_primary (env_prefs env) \<Longrightarrow>
   getPrimaryKeyFpr env (Some (mvelo_MAIN_KEYRING_ID env)) = Some fpr \<Longrightarrow> fpr \<noteq> [] \<Longrightarrow>
   senderKeyFprs env = [fpr]"
  by (simp add: senderKeyFprs_def)

lemma onEditorContainerEncrypt_buffer:
  assumes "\<forall>recipient \<in> set (ceRecipients msg).
             keyFprMap env (Some (ceKeyringId msg)) (ceRecipients msg) recipient \<noteq> None"
  shows "\<exists>buffer. keyFprBuffer (fst (onEditorContainerEncrypt env this msg)) = Some buffer
           \<and> sorted buffer \<and> distinct buffer
           \<and> (auto_add_primary (env_prefs env)
                \<and> getPrimaryKeyFpr env (Some (ceKeyringId msg)) = Some fpr \<and> fpr \<noteq> [] \<longrightarrow>
              fpr \<in> set buffer)
           \<and> (\<forall>recipient \<in> set (ceRecipients msg). \<forall>l.
                 keyFprMap env (Some (ceKeyringId msg)) (ceRecipients msg) recipient = Some l \<longrightarrow>
                 set l \<subseteq> set buffer)"
  using assms
  by (auto simp: onEditorContainerEncrypt_def Let_def sortAndDeDup_sorted sortAndDeDup_distinct
        sortAndDeDup_set split: option.splits)


lemma onEditorContainerCreateDraft_buffer:
  "getPrimaryKeyFpr env (Some kid) = Some fpr \<Longrightarrow> fpr \<noteq> [] \<Longrightarrow>
   keyFprBuffer (fst (onEditorContainerCreateDraft env this kid)) = Some [fpr]"
  by (simp add: onEditorContainerCreateDraft_def Let_def)

text \<open>
  C7. The list \<open>getPublicKeyFprs\<close> returns is sorted and has no duplicates, and depends on
  the recipient keys only through the set of their fingerprints. When \<open>keyFprBuffer\<close> is
  set the result is the buffer, sorted and deduplicated, whatever the recipient keys are.
  When it is not set the result holds the fingerprints of the recipient keys and, with
  \<open>auto_add_primary\<close> enabled, the primary key fingerprint of the main keyring if there is
  one. The buffer \<open>onEditorContainerEncrypt\<close> sets holds, with \<open>auto_add_primary\<close> enabled,
  the primary key fingerprint of the keyring of the message, so the result holds it; the
  buffer \<open>onEditorContainerCreateDraft\<close> sets is that fingerprint alone.
\<close>

theorem getPublicKeyFprs_sorted_dedup:
  "sorted (getPublicKeyFprs env this ks) \<and> distinct (getPublicKeyFprs env this ks)
   \<and> (set (map rFingerprint ks) = set (map rFingerprint ks') \<longrightarrow>
        getPublicKeyFprs env this ks = getPublicKeyFprs env this ks')
   \<and> (keyFprBuffer this = Some buffer \<longrightarrow>
        getPublicKeyFprs env this ks = sortAndDeDup buffer
        \<and> set (getPublicKeyFprs env this ks) = set buffer)
   \<and> (keyFprBuffer this = None \<longrightarrow>
        rFingerprint ` set ks \<subseteq> set (getPublicKeyFprs env this ks))
   \<and> (keyFprBuffer this = None \<and> auto_add_primary (env_prefs env)
        \<and> getPrimaryKeyFpr env (Some (mvelo_MAIN_KEYRING_ID env)) = Some fpr \<and> fpr \<noteq> [] \<longrightarrow>
        fpr \<in> set (getPublicKeyFprs env this ks))
   \<and> ((\<forall>recipient \<in> set (ceRecipients msg).
          keyFprMap env (Some (ceKeyringId msg)) (ceRecipients msg) recipient \<noteq> None)
        \<and> auto_add_primary (env_prefs env)
        \<and> getPrimaryKeyFpr env (Some (ceKeyringId msg)) = Some fpr \<and> fpr \<noteq> [] \<longrightarrow>
        fpr \<in> set (getPublicKeyFprs env (fst (onEditorContainerEncrypt env this msg)) ks))
   \<and> (getPrimaryKeyFpr env (Some kid) = Some fpr \<and> fpr \<noteq> [] \<longrightarrow>
        getPublicKeyFprs env (fst (onEditorContainerCreateDraft env this kid)) ks = [fpr])"
proof -
  have a: "sorted (getPublicKeyFprs env this ks) \<and> distinct (getPublicKeyFprs env this ks)"
    by (simp add: getPublicKeyFprs_sortAndDeDup sortAndDeDup_sorted sortAndDeDup_distinct)
  have b: "set (map rFingerprint ks) = set (map rFingerprint ks') \<longrightarrow>
        getPublicKeyFprs env this ks = getPublicKeyFprs env this ks'"
  proof
    assume eq: "set (map rFingerprint ks) = set (map rFingerprint ks')"
    show "getPublicKeyFprs env this ks = getPublicKeyFprs env this ks'"
    proof (cases "keyFprBuffer this")
      case (Some buffer)
      then show ?thesis by (simp add: getPublicKeyFprs_sortAndDeDup)
    next
      case None
      have "sortAndDeDup (map rFingerprint ks @ tail) = sortAndDeDup (map rFingerprint ks' @ tail)" for tail
        using eq by (intro sortAndDeDup_cong) simp
      with None show ?thesis by (simp add: getPublicKeyFprs_sortAndDeDup)
    qed
  qed
  have c: "keyFprBuffer this = Some buffer \<longrightarrow>
        getPublicKeyFprs env this ks = sortAndDeDup buffer
        \<and> set (getPublicKeyFprs env this ks) = set buffer"
    by (simp add: getPublicKeyFprs_sortAndDeDup sortAndDeDup_set)
  have d: "keyFprBuffer this = None \<longrightarrow>
        rFingerprint ` set ks \<subseteq> set (getPublicKeyFprs env this ks)"
    by (simp add: getPublicKeyFprs_sortAndDeDup sortAndDeDup_set)
  have e: "keyFprBuffer this = None \<and> auto_add_primary (env_prefs env)
        \<and> getPrimaryKeyFpr env (Some (mvelo_MAIN_KEYRING_ID env)) = Some fpr \<and> fpr \<noteq> [] \<longrightarrow>
        fpr \<in> set (getPublicKeyFprs env this ks)"
    by (auto simp: getPublicKeyFprs_sortAndDeDup sortAndDeDup_set senderKeyFprs_primary)
  have f: "(\<forall>recipient \<in> set (ceRecipients msg).
          keyFprMap env (Some (ceKeyringId msg)) (ceRecipients msg) recipient \<noteq> None)
        \<and> auto_add_primary (env_prefs env)
        \<and> getPrimaryKeyFpr env (Some (ceKeyringId msg)) = Some fpr \<and> fpr \<noteq> [] \<longrightarrow>
        fpr \<in> set (getPublicKeyFprs env (fst (onEditorContainerEncrypt env this msg)) ks)"
  proof
    assume h: "(\<forall>recipient \<in> set (ceRecipients msg).
          keyFprMap env (Some (ceKeyringId msg)) (ceRecipients msg) recipient \<noteq> None)
        \<and> auto_add_primary (env_prefs env)
        \<and> getPrimaryKeyFpr env (Some (ceKeyringId msg)) = Some fpr \<and> fpr \<noteq> []"
    then obtain buf where
      "keyFprBuffer (fst (onEditorContainerEncrypt env this msg)) = Some buf" "fpr \<in> set buf"
      using onEditorContainerEncrypt_buffer[of msg env this fpr] by blast
    then show "fpr \<in> set (getPublicKeyFprs env (fst (onEditorContainerEncrypt env this msg)) ks)"
      by (simp add: getPublicKeyFprs_sortAndDeDup sortAndDeDup_set)
  qed
  have g: "getPrimaryKeyFpr env (Some kid) = Some fpr \<and> fpr \<noteq> [] \<longrightarrow>
        getPublicKeyFprs env (fst (onEditorContainerCreateDraft env this kid)) ks = [fpr]"
    using onEditorContainerCreateDraft_buffer[of env kid fpr this]
    by (auto simp: getPublicKeyFprs_sortAndDeDup sortAndDeDup_def)
  from a b c d e f g show ?thesis by blast
qed

theorem getPublicKeyFprs_sorted_dedup_witness:
  "getPublicKeyFprs (sample_editor_env cancelled) (sample_controller None True)
     [\<lparr>rName = ''Bob'', rEmail = ''bob@example.org'', rFingerprint = ''B2''\<rparr>,
      \<lparr>rName = ''Al'', rEmail = ''al@example.org'', rFingerprint = ''A1''\<rparr>,
      \<lparr>rName = ''Bob'', rEmail = ''bob@example.org'', rFingerprint = ''B2''\<rparr>] =
     [''A1'', ''B2'', ''F0'']
   \<and> getPublicKeyFprs (sample_editor_env cancelled)
       ((sample_controller None True)\<lparr>keyFprBuffer := Some [''Z9'', ''C3'', ''Z9'']\<rparr>)
       [\<lparr>rName = ''Bob'', rEmail = ''bob@example.org'', rFingerprint = ''B2''\<rparr>] =
     [''C3'', ''Z9'']
   \<and> ''F0'' \<in> set (getPublicKeyFprs (sample_editor_env cancelled)
        (fst (onEditorContainerEncrypt (sample_editor_env cancelled) (sample_controller None True)
                \<lparr>ceKeyringId = ''api'', ceRecipients = [''a@example.org'', ''b@example.org'']\<rparr>))
        [])"
proof -
  let ?env = "sample_editor_env cancelled"
  let ?ctl = "sample_controller None True"
  let ?bob = "\<lparr>rName = ''Bob'', rEmail = ''bob@example.org'', rFingerprint = ''B2''\<rparr>"
  let ?al = "\<lparr>rName = ''Al'', rEmail = ''al@example.org'', rFingerprint = ''A1''\<rparr>"
  let ?msg = "\<lparr>ceKeyringId = ''api'', ceRecipients = [''a@example.org'', ''b@example.org'']\<rparr>"
  have "getPublicKeyFprs ?env ?ctl [?al, ?bob] = [''A1'', ''B2'', ''F0'']"
    by code_simp
  moreover have "getPublicKeyFprs ?env ?ctl [?bob, ?al, ?bob] = getPublicKeyFprs ?env ?ctl [?al, ?bob]"
    using getPublicKeyFprs_sorted_dedup[of ?env ?ctl "[?bob, ?al, ?bob]" "[?al, ?bob]"]
    by auto
  ultimately have w1: "getPublicKeyFprs ?env ?ctl [?bob, ?al, ?bob] = [''A1'', ''B2'', ''F0'']"
    by simp
  have "sortAndDeDup [''Z9'', ''C3'', ''Z9''] = [''C3'', ''Z9'']"
    by code_simp
  moreover have "keyFprBuffer (?ctl\<lparr>keyFprBuffer := Some [''Z9'', ''C3'', ''Z9'']\<rparr>) = Some [''Z9'', ''C3'', ''Z9'']"
    by simp
  ultimately have w2: "getPublicKeyFprs ?env (?ctl\<lparr>keyFprBuffer := Some [''Z9'', ''C3'', ''Z9'']\<rparr>) [?bob] =
     [''C3'', ''Z9'']"
    using getPublicKeyFprs_sorted_dedup[of ?env "?ctl\<lparr>keyFprBuffer := Some [''Z9'', ''C3'', ''Z9'']\<rparr>"
            "[?bob]" _ "[''Z9'', ''C3'', ''Z9'']"]
    by simp
  have h: "(\<forall>recipient \<in> set (ceRecipients ?msg).
             keyFprMap ?env (Some (ceKeyringId ?msg)) (ceRecipients ?msg) recipient \<noteq> None)
           \<and> auto_add_primary (env_prefs ?env)
           \<and> getPrimaryKeyFpr ?env (Some (ceKeyringId ?msg)) = Some ''F0'' \<and> ''F0'' \<noteq> []"
    by (simp add: sample_editor_env_def sample_prefs_def)
  have w3: "''F0'' \<in> set (getPublicKeyFprs ?env (fst (onEditorContainerEncrypt ?env ?ctl ?msg)) [])"
    using getPublicKeyFprs_sorted_dedup[of ?env ?ctl "[]" _ _ "''F0''" ?msg] h
    by blast
  from w1 w2 w3 show ?thesis by blast
qed

section \<open>onSignOnly\<close>

lemma onSignOnly_effects:
  "snd (onSignOnly env this fpr) =
     UnlockKeyCall (signOnly_request env fpr) #
     (case passwordRequest (pwdDialog_unlockKey env (signOnly_request env fpr)) of
        None \<Rightarrow> []
      | Some i \<Rightarrow> [Emit this_port (show_pwd_dialog (pwdDialog_id env))]) @
     (case outcome (pwdDialog_unlockKey env (signOnly_request env fpr)) of
        Inl err \<Rightarrow>
          if code err = Some ''PWD_DIALOG_CANCEL'' then [Emit this_port hide_pwd_dialog]
          else [Emit this_port (error_message (mapError env err)),
                Emit this_port (get_plaintext ''sign'' False)]
      | Inr u \<Rightarrow> [Emit this_port (get_plaintext ''sign'' False)])"
  by (simp add: onSignOnly_def signOnly_request_def Let_def split: sum.splits option.splits)

lemma onSignOnly_state:
  "fst (onSignOnly env this fpr) =
     this\<lparr>signKey := getPrivateKeyByFpr env (Some (mvelo_MAIN_KEYRING_ID env)) fpr,
          pwdControl := Some (pwdDialog_id env)\<rparr>"
  by (simp add: onSignOnly_def Let_def split: sum.splits option.splits)

text \<open>
  C10. When the unlock of \<open>onSignOnly\<close> fails with an error whose code is not
  \<open>PWD_DIALOG_CANCEL\<close>, the controller emits the error message and after it the
  \<open>get-plaintext\<close> request with action \<open>sign\<close>. The request is emitted in every case but
  the cancellation, in which the last event is \<open>hide-pwd-dialog\<close>.
\<close>

theorem onSignOnly_proceeds_after_error:
  "(outcome (pwdDialog_unlockKey env (signOnly_request env fpr)) = Inl err
      \<and> code err \<noteq> Some ''PWD_DIALOG_CANCEL'' \<longrightarrow>
      (\<exists>fx0. snd (onSignOnly env this fpr) =
               fx0 @ [Emit this_port (error_message (mapError env err)),
                      Emit this_port (get_plaintext ''sign'' False)]
             \<and> (\<forall>ef \<in> set fx0. isUnlockStep ef)))
   \<and> (Emit this_port (get_plaintext ''sign'' False) \<in> set (snd (onSignOnly env this fpr)) \<longleftrightarrow>
        \<not> (\<exists>e. outcome (pwdDialog_unlockKey env (signOnly_request env fpr)) = Inl e
                \<and> code e = Some ''PWD_DIALOG_CANCEL''))
   \<and> (outcome (pwdDialog_unlockKey env (signOnly_request env fpr)) = Inl err
        \<and> code err = Some ''PWD_DIALOG_CANCEL'' \<longrightarrow>
        last (snd (onSignOnly env this fpr)) = Emit this_port hide_pwd_dialog)"
proof -
  let ?fx0 = "UnlockKeyCall (signOnly_request env fpr) #
     (case passwordRequest (pwdDialog_unlockKey env (signOnly_request env fpr)) of
        None \<Rightarrow> []
      | Some i \<Rightarrow> [Emit this_port (show_pwd_dialog (pwdDialog_id env))])"
  have q: "\<forall>ef \<in> set ?fx0. isUnlockStep ef"
    by (simp split: option.splits)
  have a: "outcome (pwdDialog_unlockKey env (signOnly_request env fpr)) = Inl err
      \<and> code err \<noteq> Some ''PWD_DIALOG_CANCEL'' \<longrightarrow>
      (\<exists>fx0. snd (onSignOnly env this fpr) =
               fx0 @ [Emit this_port (error_message (mapError env err)),
                      Emit this_port (get_plaintext ''sign'' False)]
             \<and> (\<forall>ef \<in> set fx0. isUnlockStep ef))"
  proof
    assume "outcome (pwdDialog_unlockKey env (signOnly_request env fpr)) = Inl err
      \<and> code err \<noteq> Some ''PWD_DIALOG_CANCEL''"
    then have "snd (onSignOnly env this fpr) =
               ?fx0 @ [Emit this_port (error_message (mapError env err)),
                      Emit this_port (get_plaintext ''sign'' False)]"
      by (simp add: onSignOnly_effects)
    with q show "\<exists>fx0. snd (onSignOnly env this fpr) =
               fx0 @ [Emit this_port (error_message (mapError env err)),
                      Emit this_port (get_plaintext ''sign'' False)]
             \<and> (\<forall>ef \<in> set fx0. isUnlockStep ef)"
      by blast
  qed
  have b: "Emit this_port (get_plaintext ''sign'' False) \<in> set (snd (onSignOnly env this fpr)) \<longleftrightarrow>
        \<not> (\<exists>e. outcome (pwdDialog_unlockKey env (signOnly_request env fpr)) = Inl e
                \<and> code e = Some ''PWD_DIALOG_CANCEL'')"
    by (auto simp: onSignOnly_effects split: sum.splits option.splits)
  have c: "outcome (pwdDialog_unlockKey env (signOnly_request env fpr)) = Inl err
        \<and> code err = Some ''PWD_DIALOG_CANCEL'' \<longrightarrow>
        last (snd (onSignOnly env this fpr)) = Emit this_port hide_pwd_dialog"
    by (simp add: onSignOnly_effects split: option.splits)
  from a b c show ?thesis by blast
qed

theorem onSignOnly_proceeds_after_error_witness:
  "snd (onSignOnly (sample_editor_env wrong_password) (sample_controller None False) (Some ''F0'')) =
     [UnlockKeyCall (signOnly_request (sample_editor_env wrong_password) (Some ''F0'')),
      Emit this_port (show_pwd_dialog ''pwd1''),
      Emit this_port (error_message (MveloError ''Wrong password'' (Some ''WRONG_PASSWORD''))),
      Emit this_port (get_plaintext ''sign'' False)]
   \<and> Emit this_port (get_plaintext ''sign'' False)
        \<in> set (snd (onSignOnly (sample_editor_env wrong_password) (sample_controller None False) (Some ''F0'')))
   \<and> Emit this_port (get_plaintext ''sign'' False)
        \<notin> set (snd (onSignOnly (sample_editor_env cancelled) (sample_controller None False) (Some ''F0'')))"
proof -
  let ?env = "sample_editor_env wrong_password"
  let ?ctl = "sample_controller None False"
  have o: "outcome (pwdDialog_unlockKey ?env (signOnly_request ?env (Some ''F0''))) =
             Inl (MveloError ''Wrong password'' (Some ''WRONG_PASSWORD''))"
    by (simp add: sample_editor_env_def wrong_password_def)
  have c: "code (MveloError ''Wrong password'' (Some ''WRONG_PASSWORD'')) \<noteq> Some ''PWD_DIALOG_CANCEL''"
    by simp
  have oc: "outcome (pwdDialog_unlockKey (sample_editor_env cancelled)
                (signOnly_request (sample_editor_env cancelled) (Some ''F0''))) =
             Inl (MveloError ''Password dialog canceled'' (Some ''PWD_DIALOG_CANCEL''))"
    by (simp add: sample_editor_env_def cancelled_def)
  have w1: "snd (onSignOnly ?env ?ctl (Some ''F0'')) =
     [UnlockKeyCall (signOnly_request ?env (Some ''F0'')),
      Emit this_port (show_pwd_dialog ''pwd1''),
      Emit this_port (error_message (MveloError ''Wrong password'' (Some ''WRONG_PASSWORD''))),
      Emit this_port (get_plaintext ''sign'' False)]"
    by code_simp
  have w2: "Emit this_port (get_plaintext ''sign'' False) \<in> set (snd (onSignOnly ?env ?ctl (Some ''F0'')))"
    using onSignOnly_proceeds_after_error[of ?env "Some ''F0''" _ ?ctl] o c
    by auto
  have w3: "Emit this_port (get_plaintext ''sign'' False)
        \<notin> set (snd (onSignOnly (sample_editor_env cancelled) ?ctl (Some ''F0'')))"
    using onSignOnly_proceeds_after_error[of "sample_editor_env cancelled" "Some ''F0''" _ ?ctl] oc
    by auto
  from w1 w2 w3 show ?thesis by blast
qed

section \<open>A cancelled unlock in onEditorPlaintext\<close>

lemma isUnlockStep_quiet: "isUnlockStep ef \<Longrightarrow> \<not> isEngineCall ef \<and> \<not> isErrorReport ef"
  by (cases ef rule: isUnlockStep.cases) simp_all

lemma unlockKey_rejects:
  assumes "\<forall>req. outcome (pwdDialog_unlockKey env req) = Inl err"
  shows "snd (unlockKey env this uo) = Inl err \<and> (\<forall>ef \<in> set (fst (unlockKey env this uo)). isUnlockStep ef)"
  using assms by (auto simp: unlockKey_def Let_def split: option.splits)

lemma sign_unlockKey_rejects:
  assumes "\<forall>req. outcome (pwdDialog_unlockKey env req) = Inl err"
  shows "\<exists>fx. sign_unlockKey env nc this uo = (this, fx, Inl err) \<and> (\<forall>ef \<in> set fx. isUnlockStep ef)"
proof -
  let ?uo1 = "uo\<lparr>uoNoCache := nc,
                    uoReason := Some (if truthy (reason (options this))
                                      then (case reason (options this) of None \<Rightarrow> [] | Some r \<Rightarrow> r)
                                      else ''PWD_DIALOG_REASON_SIGN''),
                    uoSync := Some (\<not> password_cache (env_prefs env))\<rparr>"
  from unlockKey_rejects[OF assms, of this ?uo1] obtain fx where fx:
    "unlockKey env this ?uo1 = (fx, Inl err)" "\<forall>ef \<in> set fx. isUnlockStep ef"
    by (cases "unlockKey env this ?uo1") auto
  have "sign_unlockKey env nc this uo = (this, fx, Inl err)"
    unfolding sign_unlockKey_def Let_def fx(1) by simp
  with fx(2) show ?thesis by blast
qed

lemma signAndEncryptMessage_rejects:
  assumes "\<forall>req. outcome (pwdDialog_unlockKey env req) = Inl err"
    and "truthy (if truthy fpr0 then fpr0 else getPrimaryKeyFpr env (keyringId this))"
  shows "\<exists>fx. signAndEncryptMessage env this d fpr0 keyFprs nc = (this\<lparr>encryptTimer := None\<rparr>, fx, Inl err)
           \<and> (\<forall>ef \<in> set fx. isUnlockStep ef)"
proof -
  let ?this1 = "this\<lparr>encryptTimer := None\<rparr>"
  let ?fpr1 = "if \<not> truthy fpr0 then getPrimaryKeyFpr env (keyringId ?this1) else fpr0"
  from assms(2) have t: "truthy ?fpr1" by (simp split: if_splits)
  then obtain f where f: "?fpr1 = Some f" by (cases ?fpr1) auto
  let ?uo = "\<lparr>uoKey = getPrivateKeyByFpr env (keyringId ?this1) (Some f),
              uoNoCache = None, uoReason = None, uoSync = None\<rparr>"
  from sign_unlockKey_rejects[OF assms(1), of nc ?this1 ?uo] obtain fx where fx:
    "sign_unlockKey env nc ?this1 ?uo = (?this1, fx, Inl err)" "\<forall>ef \<in> set fx. isUnlockStep ef"
    by blast
  have "model_encryptMessage env ?this1 (sign_unlockKey env nc) d keyFprs (Some f) = (?this1, fx, Inl err)"
    using fx(1) by (simp add: model_encryptMessage_def)
  with t f have "signAndEncryptMessage env this d fpr0 keyFprs nc = (?this1, fx, Inl err)"
    by (simp add: signAndEncryptMessage_def Let_def)
  with fx(2) show ?thesis by blast
qed

lemma signAndEncrypt_rejects:
  assumes "\<forall>req. outcome (pwdDialog_unlockKey env req) = Inl err"
    and "action opts = ''encrypt''" and "signMsg opts"
    and "buildMail env opts (pgpMIME this) = Inr (Some d)"
    and "truthy (if truthy (signKeyFpr opts) then signKeyFpr opts else getPrimaryKeyFpr env (keyringId this))"
  shows "\<exists>fx. signAndEncrypt env this opts = (this\<lparr>encryptTimer := None\<rparr>, fx, Inl err)
           \<and> (\<forall>ef \<in> set fx. isUnlockStep ef)"
proof -
  let ?keyFprs = "getPublicKeyFprs env this (case keys opts of None \<Rightarrow> [] | Some ks \<Rightarrow> ks)"
  from signAndEncryptMessage_rejects[OF assms(1,5), of d ?keyFprs "noCache opts"] obtain fx where fx:
    "signAndEncryptMessage env this d (signKeyFpr opts) ?keyFprs (noCache opts) =
       (this\<lparr>encryptTimer := None\<rparr>, fx, Inl err)" "\<forall>ef \<in> set fx. isUnlockStep ef"
    by blast
  from fx(1) assms(2,3,4) have "signAndEncrypt env this opts = (this\<lparr>encryptTimer := None\<rparr>, fx, Inl err)"
    by (simp add: signAndEncrypt_def Let_def)
  with fx(2) show ?thesis by blast
qed


lemma onEditorPlaintext_rejects:
  assumes "\<forall>req. outcome (pwdDialog_unlockKey env req) = Inl err"
    and "action opts = ''encrypt''" and "signMsg opts"
    and "buildMail env (opts\<lparr>keys := Some (case keys opts of None \<Rightarrow> [] | Some l \<Rightarrow> l)\<rparr>) (pgpMIME this)
           = Inr (Some d)"
    and "truthy (if truthy (signKeyFpr opts) then signKeyFpr opts else getPrimaryKeyFpr env (keyringId this))"
  shows "\<exists>fx. (\<forall>ef \<in> set fx. isUnlockStep ef) \<and>
           onEditorPlaintext env this opts =
             (case onEditorPlaintext_catch env (this\<lparr>encryptTimer := None\<rparr>) err of
                (this2, fx2, r) \<Rightarrow> (this2, fx @ fx2, r))"
proof -
  let ?opts = "opts\<lparr>keys := Some (case keys opts of None \<Rightarrow> [] | Some l \<Rightarrow> l)\<rparr>"
  have "\<exists>fx. signAndEncrypt env this ?opts = (this\<lparr>encryptTimer := None\<rparr>, fx, Inl err)
           \<and> (\<forall>ef \<in> set fx. isUnlockStep ef)"
    using assms by (intro signAndEncrypt_rejects) (simp_all split: if_splits)
  then obtain fx where fx:
    "signAndEncrypt env this ?opts = (this\<lparr>encryptTimer := None\<rparr>, fx, Inl err)"
    "\<forall>ef \<in> set fx. isUnlockStep ef"
    by blast
  have "onEditorPlaintext env this opts =
             (case onEditorPlaintext_catch env (this\<lparr>encryptTimer := None\<rparr>) err of
                (this2, fx2, r) \<Rightarrow> (this2, fx @ fx2, r))"
    unfolding onEditorPlaintext_def Let_def fx(1) by simp
  with fx(2) show ?thesis by blast
qed

lemma catch_popup_cancel:
  assumes "editorPopup this \<noteq> None" and "code err = Some ''PWD_DIALOG_CANCEL''"
  shows "onEditorPlaintext_catch env this err = (this, [Emit this_port hide_pwd_dialog], Inr ())"
  using assms by (simp add: onEditorPlaintext_catch_def)

lemma catch_no_popup:
  assumes "editorPopup this = None"
  shows "onEditorPlaintext_catch env this err =
            (this,
             [ConsoleLog err, Emit editor_port (error_message (mapError env err))] @
             (if ports_editorCont this
              then [Emit editorCont_port (error_message (mapError env err)),
                    Emit editor_port encrypt_failed, ClearTimeout (encryptTimer this)]
              else if encryptDone this
              then [EncryptDoneReject (mapError env err),
                    Emit editor_port encrypt_failed, ClearTimeout (encryptTimer this)]
              else []),
             if ports_editorCont this \<or> encryptDone this then Inr () else Inl TypeError)"
  using assms by (simp add: onEditorPlaintext_catch_def Let_def)

text \<open>
  C8, as amended. Let the password dialog reject every unlock with an error of code
  \<open>PWD_DIALOG_CANCEL\<close>. Then \<open>onSignOnly\<close> has the steps of the unlock and the event
  \<open>hide-pwd-dialog\<close> as its only effects. A sign-and-encrypt job of \<open>onEditorPlaintext\<close>
  whose mail was built and which has a signing key does the same when the editor popup is
  set: it resolves, reports no error, calls no crypto engine and leaves the controller as
  it was, with the timer of the progress signal reset. Without editor popup the same job
  still calls no crypto engine and leaves the controller as it was, but after the steps of
  the unlock the cancellation is logged and reported with \<open>error-message\<close> to the editor,
  then with \<open>error-message\<close> to the editor container when there is one, and by the
  rejection of \<open>encryptDone\<close> otherwise; after that \<open>encrypt-failed\<close> is sent to the editor
  and the timer is cleared. When neither the container nor \<open>encryptDone\<close> is set, the
  handler fails with a \<open>TypeError\<close> after the \<open>error-message\<close> to the editor.
\<close>

theorem unlock_cancel_abort:
  assumes "\<forall>req. outcome (pwdDialog_unlockKey env req) = Inl err"
    and "code err = Some ''PWD_DIALOG_CANCEL''"
  shows
    "(\<exists>fx. snd (onSignOnly env this fpr) = fx @ [Emit this_port hide_pwd_dialog]
          \<and> (\<forall>ef \<in> set fx. isUnlockStep ef \<and> \<not> isEngineCall ef \<and> \<not> isErrorReport ef))
     \<and> (action opts = ''encrypt'' \<and> signMsg opts
        \<and> buildMail env (opts\<lparr>keys := Some (case keys opts of None \<Rightarrow> [] | Some l \<Rightarrow> l)\<rparr>) (pgpMIME this)
            = Inr (Some d)
        \<and> truthy (if truthy (signKeyFpr opts) then signKeyFpr opts
                   else getPrimaryKeyFpr env (keyringId this)) \<longrightarrow>
        (editorPopup this \<noteq> None \<longrightarrow>
           (\<exists>fx. onEditorPlaintext env this opts =
                   (this\<lparr>encryptTimer := None\<rparr>, fx @ [Emit this_port hide_pwd_dialog], Inr ())
                 \<and> (\<forall>ef \<in> set fx. isUnlockStep ef \<and> \<not> isEngineCall ef \<and> \<not> isErrorReport ef)))
        \<and> (editorPopup this = None \<longrightarrow>
             (\<exists>fx. onEditorPlaintext env this opts =
                   (this\<lparr>encryptTimer := None\<rparr>,
                    fx @ [ConsoleLog err, Emit editor_port (error_message (mapError env err))] @
                    (if ports_editorCont this
                     then [Emit editorCont_port (error_message (mapError env err)),
                           Emit editor_port encrypt_failed, ClearTimeout None]
                     else if encryptDone this
                     then [EncryptDoneReject (mapError env err),
                           Emit editor_port encrypt_failed, ClearTimeout None]
                     else []),
                    if ports_editorCont this \<or> encryptDone this then Inr () else Inl TypeError)
                 \<and> (\<forall>ef \<in> set fx. isUnlockStep ef \<and> \<not> isEngineCall ef \<and> \<not> isErrorReport ef))))"
proof -
  let ?sc = "action opts = ''encrypt'' \<and> signMsg opts
        \<and> buildMail env (opts\<lparr>keys := Some (case keys opts of None \<Rightarrow> [] | Some l \<Rightarrow> l)\<rparr>) (pgpMIME this)
            = Inr (Some d)
        \<and> truthy (if truthy (signKeyFpr opts) then signKeyFpr opts
                   else getPrimaryKeyFpr env (keyringId this))"
  let ?this1 = "this\<lparr>encryptTimer := None\<rparr>"
  let ?tail = "[ConsoleLog err, Emit editor_port (error_message (mapError env err))] @
                    (if ports_editorCont this
                     then [Emit editorCont_port (error_message (mapError env err)),
                           Emit editor_port encrypt_failed, ClearTimeout None]
                     else if encryptDone this
                     then [EncryptDoneReject (mapError env err),
                           Emit editor_port encrypt_failed, ClearTimeout None]
                     else [])"
  let ?r = "if ports_editorCont this \<or> encryptDone this then Inr () else Inl TypeError"
  let ?fx0 = "UnlockKeyCall (signOnly_request env fpr) #
     (case passwordRequest (pwdDialog_unlockKey env (signOnly_request env fpr)) of
        None \<Rightarrow> []
      | Some i \<Rightarrow> [Emit this_port (show_pwd_dialog (pwdDialog_id env))])"
  have q: "\<forall>ef \<in> set ?fx0. isUnlockStep ef \<and> \<not> isEngineCall ef \<and> \<not> isErrorReport ef"
    by (simp split: option.splits)
  from assms have "snd (onSignOnly env this fpr) = ?fx0 @ [Emit this_port hide_pwd_dialog]"
    by (simp add: onSignOnly_effects)
  with q have s: "\<exists>fx. snd (onSignOnly env this fpr) = fx @ [Emit this_port hide_pwd_dialog]
          \<and> (\<forall>ef \<in> set fx. isUnlockStep ef \<and> \<not> isEngineCall ef \<and> \<not> isErrorReport ef)"
    by blast
  have p: "\<exists>fx. onEditorPlaintext env this opts =
                   (?this1, fx @ [Emit this_port hide_pwd_dialog], Inr ())
                 \<and> (\<forall>ef \<in> set fx. isUnlockStep ef \<and> \<not> isEngineCall ef \<and> \<not> isErrorReport ef)"
    if sc: ?sc and pop: "editorPopup this \<noteq> None"
  proof -
    from sc onEditorPlaintext_rejects[OF assms(1), of opts this d] obtain fx where fx:
      "\<forall>ef \<in> set fx. isUnlockStep ef"
      "onEditorPlaintext env this opts =
             (case onEditorPlaintext_catch env ?this1 err of
                (this2, fx2, r) \<Rightarrow> (this2, fx @ fx2, r))"
      by blast
    from pop have "editorPopup ?this1 \<noteq> None" by simp
    from catch_popup_cancel[OF this assms(2), of env] fx(2)
    have "onEditorPlaintext env this opts =
                   (?this1, fx @ [Emit this_port hide_pwd_dialog], Inr ())"
      by simp
    with fx(1) isUnlockStep_quiet show ?thesis by blast
  qed
  have n: "\<exists>fx. onEditorPlaintext env this opts = (?this1, fx @ ?tail, ?r)
                 \<and> (\<forall>ef \<in> set fx. isUnlockStep ef \<and> \<not> isEngineCall ef \<and> \<not> isErrorReport ef)"
    if sc: ?sc and nopop: "editorPopup this = None"
  proof -
    from sc onEditorPlaintext_rejects[OF assms(1), of opts this d] obtain fx where fx:
      "\<forall>ef \<in> set fx. isUnlockStep ef"
      "onEditorPlaintext env this opts =
             (case onEditorPlaintext_catch env ?this1 err of
                (this2, fx2, r) \<Rightarrow> (this2, fx @ fx2, r))"
      by blast
    from nopop have "editorPopup ?this1 = None" by simp
    from catch_no_popup[OF this, of env err]
    have c: "onEditorPlaintext_catch env ?this1 err = (?this1, ?tail, ?r)"
      by simp
    from fx(2) have "onEditorPlaintext env this opts = (?this1, fx @ ?tail, ?r)"
      unfolding c by simp
    with fx(1) isUnlockStep_quiet show ?thesis by blast
  qed
  from s p n show ?thesis by blast
qed

theorem unlock_cancel_abort_witness:
  "onEditorPlaintext (sample_editor_env cancelled) (sample_controller (Some Popup) False)
       (sample_plaintext ''encrypt'' True) =
     (sample_controller (Some Popup) False,
      [UnlockKeyCall \<lparr>reqKey = Some (sample_key 1), reqReason = ''PWD_DIALOG_REASON_SIGN'',
                      reqOpenPopup = False, reqNoCache = None\<rparr>,
       Emit editor_port (show_pwd_dialog ''pwd1''),
       Emit this_port hide_pwd_dialog],
      Inr ())
   \<and> snd (onSignOnly (sample_editor_env cancelled) (sample_controller None False) (Some ''F0'')) =
       [UnlockKeyCall (signOnly_request (sample_editor_env cancelled) (Some ''F0'')),
        Emit this_port (show_pwd_dialog ''pwd1''),
        Emit this_port hide_pwd_dialog]
   \<and> last (fst (snd (onEditorPlaintext (sample_editor_env cancelled) (sample_controller (Some Popup) False)
       (sample_plaintext ''encrypt'' True)))) = Emit this_port hide_pwd_dialog
   \<and> EncryptDoneReject (MveloError ''Password dialog canceled'' (Some ''PWD_DIALOG_CANCEL''))
        \<in> set (fst (snd (onEditorPlaintext (sample_editor_env cancelled) (sample_controller None False)
                             (sample_plaintext ''encrypt'' True))))
   \<and> snd (snd (onEditorPlaintext (sample_editor_env cancelled) (sample_controller None False)
                  (sample_plaintext ''encrypt'' True))) = Inr ()"
proof -
  let ?env = "sample_editor_env cancelled"
  let ?ctl = "sample_controller (Some Popup) False"
  let ?opts = "sample_plaintext ''encrypt'' True"
  let ?err = "MveloError ''Password dialog canceled'' (Some ''PWD_DIALOG_CANCEL'')"
  have h1: "\<forall>req. outcome (pwdDialog_unlockKey ?env req) = Inl ?err"
    by (simp add: sample_editor_env_def cancelled_def)
  have h2: "code ?err = Some ''PWD_DIALOG_CANCEL''" by simp
  have sc: "action ?opts = ''encrypt'' \<and> signMsg ?opts
        \<and> buildMail ?env (?opts\<lparr>keys := Some (case keys ?opts of None \<Rightarrow> [] | Some l \<Rightarrow> l)\<rparr>) (pgpMIME ?ctl)
            = Inr (Some ''hello'')
        \<and> truthy (if truthy (signKeyFpr ?opts) then signKeyFpr ?opts
                   else getPrimaryKeyFpr ?env (keyringId ?ctl))"
    by (simp add: sample_editor_env_def sample_plaintext_def sample_controller_def)
  have pop: "editorPopup ?ctl \<noteq> None" by (simp add: sample_controller_def)
  have w1: "onEditorPlaintext ?env ?ctl ?opts =
     (?ctl,
      [UnlockKeyCall \<lparr>reqKey = Some (sample_key 1), reqReason = ''PWD_DIALOG_REASON_SIGN'',
                      reqOpenPopup = False, reqNoCache = None\<rparr>,
       Emit editor_port (show_pwd_dialog ''pwd1''),
       Emit this_port hide_pwd_dialog],
      Inr ())"
    by code_simp
  have w2: "snd (onSignOnly ?env (sample_controller None False) (Some ''F0'')) =
       [UnlockKeyCall (signOnly_request ?env (Some ''F0'')),
        Emit this_port (show_pwd_dialog ''pwd1''),
        Emit this_port hide_pwd_dialog]"
    by code_simp
  from unlock_cancel_abort[OF h1 h2, of ?ctl "Some ''F0''" ?opts "''hello''"] sc pop
  obtain fx where "onEditorPlaintext ?env ?ctl ?opts =
                   (?ctl\<lparr>encryptTimer := None\<rparr>, fx @ [Emit this_port hide_pwd_dialog], Inr ())"
    by blast
  then have w3: "last (fst (snd (onEditorPlaintext ?env ?ctl ?opts))) = Emit this_port hide_pwd_dialog"
    by simp
  let ?ctl2 = "sample_controller None False"
  have sc2: "action ?opts = ''encrypt'' \<and> signMsg ?opts
        \<and> buildMail ?env (?opts\<lparr>keys := Some (case keys ?opts of None \<Rightarrow> [] | Some l \<Rightarrow> l)\<rparr>) (pgpMIME ?ctl2)
            = Inr (Some ''hello'')
        \<and> truthy (if truthy (signKeyFpr ?opts) then signKeyFpr ?opts
                   else getPrimaryKeyFpr ?env (keyringId ?ctl2))"
    by (simp add: sample_editor_env_def sample_plaintext_def sample_controller_def)
  have nopop: "editorPopup ?ctl2 = None" by (simp add: sample_controller_def)
  have c2: "\<not> ports_editorCont ?ctl2" "encryptDone ?ctl2" by (simp_all add: sample_controller_def)
  have m: "mapError ?env ?err = ?err" by (simp add: sample_editor_env_def)
  from unlock_cancel_abort[OF h1 h2, of ?ctl2 "Some ''F0''" ?opts "''hello''"] sc2 nopop
  obtain fx where "onEditorPlaintext ?env ?ctl2 ?opts =
                   (?ctl2\<lparr>encryptTimer := None\<rparr>,
                    fx @ [ConsoleLog ?err, Emit editor_port (error_message (mapError ?env ?err))] @
                    (if ports_editorCont ?ctl2
                     then [Emit editorCont_port (error_message (mapError ?env ?err)),
                           Emit editor_port encrypt_failed, ClearTimeout None]
                     else if encryptDone ?ctl2
                     then [EncryptDoneReject (mapError ?env ?err),
                           Emit editor_port encrypt_failed, ClearTimeout None]
                     else []),
                    if ports_editorCont ?ctl2 \<or> encryptDone ?ctl2 then Inr () else Inl TypeError)"
    by blast
  then have w4: "EncryptDoneReject ?err \<in> set (fst (snd (onEditorPlaintext ?env ?ctl2 ?opts)))"
    and w5: "snd (snd (onEditorPlaintext ?env ?ctl2 ?opts)) = Inr ()"
    using c2 m by simp_all
  from w1 w2 w3 w4 w5 show ?thesis by blast
qed

theorem unlock_cancel_counterexample:
  "onEditorPlaintext (sample_editor_env cancelled) (sample_controller None True)
       (sample_plaintext ''encrypt'' True) =
     (sample_controller None True,
      [UnlockKeyCall \<lparr>reqKey = Some (sample_key 1), reqReason = ''PWD_DIALOG_REASON_SIGN'',
                      reqOpenPopup = True, reqNoCache = None\<rparr>,
       ConsoleLog (MveloError ''Password dialog canceled'' (Some ''PWD_DIALOG_CANCEL'')),
       Emit editor_port (error_message (MveloError ''Password dialog canceled'' (Some ''PWD_DIALOG_CANCEL''))),
       Emit editorCont_port (error_message (MveloError ''Password dialog canceled'' (Some ''PWD_DIALOG_CANCEL''))),
       Emit editor_port encrypt_failed,
       ClearTimeout None],
      Inr ())"
  by code_simp

section \<open>getKeyData\<close>

lemma getKeyData_loop_filter:
  "getKeyData_loop x this_id allUsers ks result =
     result @ map (\<lambda>k. keyDataOf x k allUsers)
                (filter (\<lambda>k. verifyPrimaryKey x k \<noteq> invalid \<and> \<not> isKeyPseudoRevoked x this_id k) ks)"
  by (induction ks arbitrary: result) simp_all

lemma getKeyData_filter:
  "getKeyData x this_id allKeys allUsers =
     map (\<lambda>k. keyDataOf x k allUsers)
       (filter (\<lambda>k. verifyPrimaryKey x k \<noteq> invalid \<and> \<not> isKeyPseudoRevoked x this_id k) allKeys)"
  by (simp add: getKeyData_def getKeyData_loop_filter)

lemma collectUsers_email:
  "\<forall>u \<in> set kdusers. mEmail u \<noteq> [] \<Longrightarrow> \<forall>u \<in> set (collectUsers x key us kdusers). mEmail u \<noteq> []"
proof (induction us arbitrary: kdusers)
  case Nil
  then show ?case by simp
next
  case (Cons keyUser rest)
  have ext: "\<forall>u \<in> set (kdusers @ [user]). mEmail u \<noteq> []" if "mEmail user \<noteq> []" for user
    using Cons.prems that by simp
  show ?case
  proof (cases "userId keyUser")
    case None
    with Cons.IH[OF Cons.prems] show ?thesis by simp
  next
    case (Some userid)
    show ?thesis
    proof (cases "mEmail (mapKeyUserIds x userid) = []")
      case True
      with Some Cons.IH[OF Cons.prems] show ?thesis by (simp add: Let_def)
    next
      case False
      from Cons.IH[OF ext[OF False]] Cons.IH[OF Cons.prems] Some False
      show ?thesis by (simp add: Let_def)
    qed
  qed
qed

lemma keyDataOf_key: "kdKey (keyDataOf x k allUsers) = k"
  by (simp add: keyDataOf_def)

lemma keyDataOf_primary: "kdUsers (keyDataOf x k False) = [mapKeyUserIds x (getUserId x k)]"
  by (simp add: keyDataOf_def)

lemma keyDataOf_all_email: "\<forall>u \<in> set (kdUsers (keyDataOf x k True)). mEmail u \<noteq> []"
  using collectUsers_email[of "[]" x k "users k"] by (simp add: keyDataOf_def)

text \<open>
  C9, as amended. \<open>getKeyData\<close> returns one entry for each key of the keyring whose primary
  key does not verify as invalid and which is not pseudo-revoked for this keyring, in the
  order of the keyring, and no other entry. Without the option \<open>allUsers\<close> each entry
  carries exactly one identity, the mapped primary user id of its key, whether or not it
  has an email address. With the option every identity of an entry has an email address.
\<close>

theorem getKeyData_entries:
  "map kdKey (getKeyData x this_id allKeys allUsers) =
     filter (\<lambda>k. verifyPrimaryKey x k \<noteq> invalid \<and> \<not> isKeyPseudoRevoked x this_id k) allKeys
   \<and> (\<not> allUsers \<longrightarrow>
        (\<forall>e \<in> set (getKeyData x this_id allKeys allUsers).
           kdUsers e = [mapKeyUserIds x (getUserId x (kdKey e))]))
   \<and> (allUsers \<longrightarrow>
        (\<forall>e \<in> set (getKeyData x this_id allKeys allUsers). \<forall>u \<in> set (kdUsers e). mEmail u \<noteq> []))"
proof -
  have a: "map kdKey (getKeyData x this_id allKeys allUsers) =
     filter (\<lambda>k. verifyPrimaryKey x k \<noteq> invalid \<and> \<not> isKeyPseudoRevoked x this_id k) allKeys"
    by (simp add: getKeyData_filter o_def keyDataOf_key)
  have b: "\<forall>e \<in> set (getKeyData x this_id allKeys allUsers).
           kdUsers e = [mapKeyUserIds x (getUserId x (kdKey e))]" if "\<not> allUsers"
    using that by (auto simp: getKeyData_filter keyDataOf_key keyDataOf_primary)
  have c: "\<forall>e \<in> set (getKeyData x this_id allKeys allUsers). \<forall>u \<in> set (kdUsers e). mEmail u \<noteq> []"
    if allUsers
    using that keyDataOf_all_email[of x] by (auto simp: getKeyData_filter)
  from a b c show ?thesis by blast
qed

theorem getKeyData_entries_witness:
  "map kdFingerprint
       (getKeyData (sample_ext\<lparr>isKeyPseudoRevoked := \<lambda>i k. i = ''main'' \<and> fingerprint k = ''DD04''\<rparr>)
          ''main'' (map sample_key [1, 2, 3, 4, 5]) False) = [''AA01'', ''EE05'']
   \<and> map kdKey
       (getKeyData (sample_ext\<lparr>isKeyPseudoRevoked := \<lambda>i k. i = ''main'' \<and> fingerprint k = ''DD04''\<rparr>)
          ''main'' (map sample_key [1, 2, 3, 4, 5]) False) = [sample_key 1, sample_key 5]
   \<and> map kdUsers
       (getKeyData (sample_ext\<lparr>isKeyPseudoRevoked := \<lambda>i k. i = ''main'' \<and> fingerprint k = ''DD04''\<rparr>)
          ''main'' (map sample_key [1, 2, 3, 4, 5]) True) =
       [[\<lparr>mUserId = ''Alice@Example.org'', mEmail = ''Alice@Example.org'', mName = []\<rparr>,
         \<lparr>mUserId = ''mallory@evil.test'', mEmail = ''mallory@evil.test'', mName = []\<rparr>],
        []]"
proof -
  let ?x = "sample_ext\<lparr>isKeyPseudoRevoked := \<lambda>i k. i = ''main'' \<and> fingerprint k = ''DD04''\<rparr>"
  let ?ks = "map sample_key [1, 2, 3, 4, 5]"
  have f: "filter (\<lambda>k. verifyPrimaryKey ?x k \<noteq> invalid \<and> \<not> isKeyPseudoRevoked ?x ''main'' k) ?ks
             = [sample_key 1, sample_key 5]"
    by code_simp
  have w1: "map kdFingerprint (getKeyData ?x ''main'' ?ks False) = [''AA01'', ''EE05'']"
    by code_simp
  have w2: "map kdKey (getKeyData ?x ''main'' ?ks False) = [sample_key 1, sample_key 5]"
    using getKeyData_entries[of ?x "''main''" ?ks False] f by simp
  have w3: "map kdUsers (getKeyData ?x ''main'' ?ks True) =
       [[\<lparr>mUserId = ''Alice@Example.org'', mEmail = ''Alice@Example.org'', mName = []\<rparr>,
         \<lparr>mUserId = ''mallory@evil.test'', mEmail = ''mallory@evil.test'', mName = []\<rparr>],
        []]"
    by code_simp
  from w1 w2 w3 show ?thesis by blast
qed

theorem getKeyData_counterexample:
  "map kdUsers (getKeyData sample_ext ''main'' [sample_key 5] False) =
     [[\<lparr>mUserId = [], mEmail = [], mName = []\<rparr>]]"
  by code_simp

section \<open>The timeout of the lookup\<close>


















section \<open>Reading the body\<close>







end
